theory Spec2Isabelle
  imports Complex_Main "HOL-Library.Char_ord" "HOL-Library.List_Lexorder"
begin

section \<open>Arrays, errors and the numpy operations the module calls\<close>

text \<open>
  The module \<^verbatim>\<open>Lab_2_4_LR2.py\<close> works on numpy arrays. A two-dimensional array is
  modelled with its shape: the number of columns is stored (an array with no rows still
  has columns), the number of rows is the length of the row list. Numbers are real
  numbers: the rounding of IEEE doubles is not modelled, the operations are carried out
  in the order in which the source writes them. Every exception the source raises, or
  that a numpy call raises on operands of the wrong shape, is a value of \<open>error\<close>.
\<close>

datatype error =
    ValueError string
  | ShapeError
  | LinAlgError
  | ZeroDivisionError
  | IndexError
  | TypeError

text \<open>
  \<open>ValueError\<close> carries the message of the module's own \<^verbatim>\<open>raise\<close> statements;
  \<open>ShapeError\<close> stands for the \<^verbatim>\<open>ValueError\<close> that numpy raises on operands whose
  shapes do not fit, whose message is not modelled.
\<close>

datatype 'a arr2 = Arr2 (ncols: nat) (rows: "'a list list")

datatype ndarray = A1 "real list" | A2 "real arr2"

definition nrows :: "'a arr2 \<Rightarrow> nat" where
  "nrows A = length (rows A)"

definition rect :: "'a arr2 \<Rightarrow> bool" where
  "rect A = list_all (\<lambda>r. length r = ncols A) (rows A)"

definition column :: "'a arr2 \<Rightarrow> nat \<Rightarrow> 'a list" where
  "column A j = map (\<lambda>r. r ! j) (rows A)"

text \<open>\<^verbatim>\<open>X.reshape(-1, 1)\<close> on a one-dimensional array.\<close>

definition reshape_col :: "'a list \<Rightarrow> 'a arr2" where
  "reshape_col xs = Arr2 1 (map (\<lambda>x. [x]) xs)"

text \<open>\<^verbatim>\<open>np.insert(X, 0, 1, axis=1)\<close>: a column of ones in front.\<close>

definition insert_ones :: "real arr2 \<Rightarrow> real arr2" where
  "insert_ones X = Arr2 (Suc (ncols X)) (map (\<lambda>r. 1 # r) (rows X))"

text \<open>\<^verbatim>\<open>X.T\<close>.\<close>

definition transpose_a :: "'a arr2 \<Rightarrow> 'a arr2" where
  "transpose_a X = Arr2 (nrows X) (map (column X) [0..<ncols X])"

text \<open>\<^verbatim>\<open>X[:, 1:]\<close>.\<close>

definition cols_from1 :: "'a arr2 \<Rightarrow> 'a arr2" where
  "cols_from1 X = Arr2 (ncols X - 1) (map tl (rows X))"

definition inner :: "real list \<Rightarrow> real list \<Rightarrow> real" where
  "inner u v = sum_list (map2 (*) u v)"

text \<open>\<^verbatim>\<open>A.dot(v)\<close> for a matrix and a vector, and \<^verbatim>\<open>A.dot(B)\<close> for two matrices:
  numpy raises when the inner dimensions differ.\<close>

definition dot_mv :: "real arr2 \<Rightarrow> real list \<Rightarrow> error + real list" where
  "dot_mv A v =
     (if ncols A = length v then Inr (map (\<lambda>r. inner r v) (rows A)) else Inl ShapeError)"

definition dot_mm :: "real arr2 \<Rightarrow> real arr2 \<Rightarrow> error + real arr2" where
  "dot_mm A B =
     (if ncols A = nrows B
      then Inr (Arr2 (ncols B) (map (\<lambda>r. map (\<lambda>j. inner r (column B j)) [0..<ncols B]) (rows A)))
      else Inl ShapeError)"

text \<open>\<^verbatim>\<open>a - b\<close> on one-dimensional arrays, with numpy's broadcasting of a length-one
  operand, and the in-place \<^verbatim>\<open>a -= b\<close>, whose result must have the shape of \<open>a\<close>.\<close>

definition np_sub :: "real list \<Rightarrow> real list \<Rightarrow> error + real list" where
  "np_sub a b =
     (if length a = length b then Inr (map2 (-) a b)
      else if length b = 1 then Inr (map (\<lambda>x. x - hd b) a)
      else if length a = 1 then Inr (map (\<lambda>x. hd a - x) b)
      else Inl ShapeError)"

definition np_isub :: "real list \<Rightarrow> real list \<Rightarrow> error + real list" where
  "np_isub a b =
     (if length a = length b then Inr (map2 (-) a b)
      else if length b = 1 then Inr (map (\<lambda>x. x - hd b) a)
      else Inl ShapeError)"

section \<open>The class \<^verbatim>\<open>LinearRegressor\<close>\<close>

text \<open>
  The object has two fields, both \<^verbatim>\<open>None\<close> after \<^verbatim>\<open>__init__\<close>. A method that
  assigns to them takes the object and returns it together with the exception it raised,
  if any: the fields assigned before the exception stay assigned.
\<close>

record regressor =
  coefficients :: "real list option"
  intercept :: "real option"

definition init :: regressor where
  "init = \<lparr>coefficients = None, intercept = None\<rparr>"

definition predict :: "regressor \<Rightarrow> ndarray \<Rightarrow> error + real list" where
  "predict self X =
     (case coefficients self of
        None \<Rightarrow> Inl (ValueError ''Model is not yet fitted'')
      | Some c \<Rightarrow>
     (case intercept self of
        None \<Rightarrow> Inl (ValueError ''Model is not yet fitted'')
      | Some b \<Rightarrow>
     (case dot_mv (case X of A1 xs \<Rightarrow> reshape_col xs | A2 M \<Rightarrow> M) c of
        Inl e \<Rightarrow> Inl e
      | Inr p \<Rightarrow> Inr (map (\<lambda>v. v + b) p))))"

text \<open>
  \<^verbatim>\<open>np.linalg.inv\<close> belongs to numpy, not to the module: it is the parameter
  \<open>linalg_inv\<close>, which returns the inverse or raises.
\<close>

definition fit_multiple ::
  "(real arr2 \<Rightarrow> error + real arr2) \<Rightarrow> regressor \<Rightarrow> real arr2 \<Rightarrow> real list
     \<Rightarrow> error option \<times> regressor" where
  "fit_multiple linalg_inv self X y =
     (case dot_mm (transpose_a X) X of
        Inl e \<Rightarrow> (Some e, self)
      | Inr XtX \<Rightarrow>
     (case linalg_inv XtX of
        Inl e \<Rightarrow> (Some e, self)
      | Inr G \<Rightarrow>
     (case dot_mm G (transpose_a X) of
        Inl e \<Rightarrow> (Some e, self)
      | Inr GXt \<Rightarrow>
     (case dot_mv GXt y of
        Inl e \<Rightarrow> (Some e, self)
      | Inr theta \<Rightarrow>
     (case theta of
        [] \<Rightarrow> (Some IndexError, self)
      | t0 # ts \<Rightarrow> (None, self\<lparr>intercept := Some t0, coefficients := Some ts\<rparr>))))))"

text \<open>
  One pass of the loop body of \<^verbatim>\<open>fit_gradient_descent\<close>. \<^verbatim>\<open>learning_rate/m\<close> is a
  division of a Python float by a Python int and raises on \<open>m = 0\<close>; it is evaluated
  before the product \<^verbatim>\<open>X.T.dot(error)\<close>. The diagnostic \<^verbatim>\<open>print\<close> of every
  thousandth epoch writes to standard output only and is left out.
\<close>

definition gd_epoch ::
  "real arr2 \<Rightarrow> real list \<Rightarrow> real \<Rightarrow> nat \<Rightarrow> regressor \<Rightarrow> error option \<times> regressor" where
  "gd_epoch X y learning_rate m self =
     (case predict self (A2 (cols_from1 X)) of
        Inl e \<Rightarrow> (Some e, self)
      | Inr predictions \<Rightarrow>
     (case np_sub predictions y of
        Inl e \<Rightarrow> (Some e, self)
      | Inr err \<Rightarrow>
     (if m = 0 then (Some ZeroDivisionError, self)
      else
     (case dot_mv (transpose_a X) err of
        Inl e \<Rightarrow> (Some e, self)
      | Inr xte \<Rightarrow>
     (case map (\<lambda>g. learning_rate / real m * g) xte of
        [] \<Rightarrow> (Some IndexError, self)
      | g0 # gs \<Rightarrow>
     (case intercept self of
        None \<Rightarrow> (Some TypeError, self)
      | Some b \<Rightarrow>
     (let self1 = self\<lparr>intercept := Some (b - g0)\<rparr> in
     (case coefficients self1 of
        None \<Rightarrow> (Some TypeError, self1)
      | Some c \<Rightarrow>
     (case np_isub c gs of
        Inl e \<Rightarrow> (Some e, self1)
      | Inr c' \<Rightarrow> (None, self1\<lparr>coefficients := Some c'\<rparr>))))))))))"

text \<open>\<^verbatim>\<open>for epoch in range(iterations)\<close>: an exception leaves the loop.\<close>

fun gd_loop ::
  "real arr2 \<Rightarrow> real list \<Rightarrow> real \<Rightarrow> nat \<Rightarrow> nat \<Rightarrow> regressor \<Rightarrow> error option \<times> regressor" where
  "gd_loop X y learning_rate m 0 self = (None, self)"
| "gd_loop X y learning_rate m (Suc k) self =
     (case gd_epoch X y learning_rate m self of
        (Some e, self') \<Rightarrow> (Some e, self')
      | (None, self') \<Rightarrow> gd_loop X y learning_rate m k self')"

text \<open>
  \<^verbatim>\<open>np.random.rand\<close> is the parameter \<open>rng\<close>: the sequence of numbers the generator
  hands out from the moment of the call. \<^verbatim>\<open>np.random.rand(X.shape[1] - 1)\<close> takes the
  first \<open>ncols X - 1\<close> of them (and raises on a negative dimension),
  \<^verbatim>\<open>np.random.rand()\<close> the next one.
\<close>

definition fit_gradient_descent ::
  "(nat \<Rightarrow> real) \<Rightarrow> regressor \<Rightarrow> real arr2 \<Rightarrow> real list \<Rightarrow> real \<Rightarrow> int
     \<Rightarrow> error option \<times> regressor" where
  "fit_gradient_descent rng self X y learning_rate iterations =
     (let m = length y in
      if ncols X = 0 then (Some ShapeError, self)
      else
        let self1 = self\<lparr>coefficients := Some (map (\<lambda>i. rng i * 0.01) [0..<ncols X - 1])\<rparr>;
            self2 = self1\<lparr>intercept := Some (rng (ncols X - 1) * 0.01)\<rparr>
        in gd_loop X y learning_rate m (nat iterations) self2)"

definition fit ::
  "(real arr2 \<Rightarrow> error + real arr2) \<Rightarrow> (nat \<Rightarrow> real) \<Rightarrow> regressor \<Rightarrow> ndarray \<Rightarrow> real list
     \<Rightarrow> string \<Rightarrow> real \<Rightarrow> int \<Rightarrow> error option \<times> regressor" where
  "fit linalg_inv rng self X y method learning_rate iterations =
     (if method \<notin> set [''least_squares'', ''gradient_descent'']
      then (Some (ValueError (''Method '' @ method
                    @ '' not available for training linear regression.'')), self)
      else
        let X_with_bias = insert_ones (case X of A1 xs \<Rightarrow> reshape_col xs | A2 M \<Rightarrow> M)
        in if method = ''least_squares'' then fit_multiple linalg_inv self X_with_bias y
           else if method = ''gradient_descent''
           then fit_gradient_descent rng self X_with_bias y learning_rate iterations
           else (None, self))"

section \<open>The function \<^verbatim>\<open>evaluate_regression\<close>\<close>

text \<open>
  numpy does not raise on a division by zero: the quotient is an infinity or not-a-number.
  The values of the metrics are therefore real numbers extended with these three special
  values, combined as IEEE arithmetic combines them (the sign of a zero is not modelled:
  the zeros that occur here are sums of squares and lengths). The input vectors hold
  finite numbers.
\<close>

datatype fval = Fin real | PInf | NInf | NaN

fun fneg :: "fval \<Rightarrow> fval" where
  "fneg (Fin a) = Fin (- a)"
| "fneg PInf = NInf"
| "fneg NInf = PInf"
| "fneg NaN = NaN"

fun fadd :: "fval \<Rightarrow> fval \<Rightarrow> fval" where
  "fadd (Fin a) (Fin b) = Fin (a + b)"
| "fadd NaN _ = NaN"
| "fadd _ NaN = NaN"
| "fadd PInf NInf = NaN"
| "fadd NInf PInf = NaN"
| "fadd PInf _ = PInf"
| "fadd _ PInf = PInf"
| "fadd NInf _ = NInf"
| "fadd _ NInf = NInf"

definition fsub :: "fval \<Rightarrow> fval \<Rightarrow> fval" where
  "fsub a b = fadd a (fneg b)"

fun fmul :: "fval \<Rightarrow> fval \<Rightarrow> fval" where
  "fmul (Fin a) (Fin b) = Fin (a * b)"
| "fmul NaN _ = NaN"
| "fmul _ NaN = NaN"
| "fmul PInf (Fin b) = (if 0 < b then PInf else if b < 0 then NInf else NaN)"
| "fmul NInf (Fin b) = (if 0 < b then NInf else if b < 0 then PInf else NaN)"
| "fmul (Fin a) PInf = (if 0 < a then PInf else if a < 0 then NInf else NaN)"
| "fmul (Fin a) NInf = (if 0 < a then NInf else if a < 0 then PInf else NaN)"
| "fmul PInf PInf = PInf"
| "fmul NInf NInf = PInf"
| "fmul PInf NInf = NInf"
| "fmul NInf PInf = NInf"

fun fdiv :: "fval \<Rightarrow> fval \<Rightarrow> fval" where
  "fdiv (Fin a) (Fin b) =
     (if b \<noteq> 0 then Fin (a / b) else if 0 < a then PInf else if a < 0 then NInf else NaN)"
| "fdiv NaN _ = NaN"
| "fdiv _ NaN = NaN"
| "fdiv (Fin a) _ = Fin 0"
| "fdiv PInf (Fin b) = (if 0 \<le> b then PInf else NInf)"
| "fdiv NInf (Fin b) = (if 0 \<le> b then NInf else PInf)"
| "fdiv _ _ = NaN"

fun fsqrt :: "fval \<Rightarrow> fval" where
  "fsqrt (Fin a) = (if 0 \<le> a then Fin (sqrt a) else NaN)"
| "fsqrt PInf = PInf"
| "fsqrt _ = NaN"

text \<open>\<^verbatim>\<open>np.sum\<close> and \<^verbatim>\<open>np.mean\<close>; the mean of an empty array is \<open>0/0\<close>.\<close>

definition fsum :: "fval list \<Rightarrow> fval" where
  "fsum xs = foldl fadd (Fin 0) xs"

definition np_mean :: "real list \<Rightarrow> fval" where
  "np_mean xs = fdiv (Fin (sum_list xs)) (Fin (real (length xs)))"

text \<open>The returned dictionary is the list of its items, in insertion order.\<close>

definition evaluate_regression :: "real list \<Rightarrow> real list \<Rightarrow> error + (string \<times> fval) list" where
  "evaluate_regression y_true y_pred =
     (case np_sub y_true y_pred of
        Inl e \<Rightarrow> Inl e
      | Inr d \<Rightarrow>
        let ss_res = Fin (sum_list (map (\<lambda>x. x * x) d));
            mean = np_mean y_true;
            ss_tot = fsum (map (\<lambda>y. let t = fsub (Fin y) mean in fmul t t) y_true);
            r_squared = fsub (Fin 1) (fdiv ss_res ss_tot);
            rmse = fsqrt (fdiv (Fin (sum_list (map (\<lambda>x. x * x) d))) (Fin (real (length y_true))));
            mae = fdiv (Fin (sum_list (map abs d))) (Fin (real (length y_true)))
        in Inr [(''R2'', r_squared), (''RMSE'', rmse), (''MAE'', mae)])"

section \<open>The function \<^verbatim>\<open>one_hot_encode\<close>\<close>

text \<open>
  An entry of the data array is a finite number or a string (not-a-number is not an
  entry of the model). A numpy array has one element type for all its entries:
  \<open>Float64\<close> stands for the numeric types, \<open>Unicode\<close> for the string type that
  \<^verbatim>\<open>np.array\<close> gives a list of strings, \<open>Object\<close> for arrays of Python objects, which
  may hold numbers and strings side by side. The arrays live in a store: a list of
  arrays, an array's address being its position. \<^verbatim>\<open>X.copy()\<close>, \<^verbatim>\<open>np.zeros\<close>
  and \<^verbatim>\<open>np.hstack\<close> allocate a new array at the end of the store; the assignment
  \<^verbatim>\<open>one_hot[:, i] = ...\<close> writes into the array at the address held by \<^verbatim>\<open>one_hot\<close>;
  the slices \<^verbatim>\<open>X[:, index]\<close> and \<^verbatim>\<open>one_hot[:, 1:]\<close> are views, read where they are
  used, of the element type of their array. The function returns the address held by
  \<^verbatim>\<open>X_transformed\<close>, or the exception, and the store it leaves.
\<close>

datatype cell = is_Num: Num (the_num: real) | is_Str: Str (the_str: string)

datatype dtype = Float64 | Unicode | Object

datatype nparray = NP (dtype: dtype) (cells: "cell arr2")

type_synonym heap = "nparray list"

definition alloc :: "heap \<Rightarrow> nparray \<Rightarrow> nat \<times> heap" where
  "alloc h a = (length h, h @ [a])"

text \<open>A slice of an array, or an assignment into it, keeps its element type.\<close>

definition view :: "(cell arr2 \<Rightarrow> cell arr2) \<Rightarrow> nparray \<Rightarrow> nparray" where
  "view f A = NP (dtype A) (f (cells A))"

text \<open>\<^verbatim>\<open>np.unique\<close>: the distinct values in ascending order. Sorting an array of
  Python objects that holds both numbers and strings raises.\<close>

definition np_unique :: "cell list \<Rightarrow> error + cell list" where
  "np_unique col =
     (if list_all is_Num col then Inr (map Num (sort (remdups (map the_num col))))
      else if list_all is_Str col then Inr (map Str (sort (remdups (map the_str col))))
      else Inl TypeError)"

text \<open>Python's indexing and slicing of a dimension of size \<open>n\<close> with an integer that may
  be negative: \<^verbatim>\<open>[:, i]\<close> raises out of range, \<^verbatim>\<open>[:, :i]\<close> and \<^verbatim>\<open>[:, i:]\<close> clip.\<close>

definition py_index :: "nat \<Rightarrow> int \<Rightarrow> error + nat" where
  "py_index n i =
     (if 0 \<le> i \<and> i < int n then Inr (nat i)
      else if - int n \<le> i \<and> i < 0 then Inr (nat (int n + i))
      else Inl IndexError)"

definition py_bound :: "nat \<Rightarrow> int \<Rightarrow> nat" where
  "py_bound n i = (if i < 0 then nat (max 0 (int n + i)) else min n (nat i))"

definition cols_upto :: "'a arr2 \<Rightarrow> int \<Rightarrow> 'a arr2" where
  "cols_upto A i = Arr2 (py_bound (ncols A) i) (map (take (py_bound (ncols A) i)) (rows A))"

definition cols_from :: "'a arr2 \<Rightarrow> int \<Rightarrow> 'a arr2" where
  "cols_from A i = Arr2 (ncols A - py_bound (ncols A) i) (map (drop (py_bound (ncols A) i)) (rows A))"

text \<open>\<^verbatim>\<open>np.zeros((n, k))\<close> is an array of floats.\<close>

definition zeros :: "nat \<Rightarrow> nat \<Rightarrow> nparray" where
  "zeros n k = NP Float64 (Arr2 k (replicate n (replicate k (Num 0))))"

text \<open>\<^verbatim>\<open>A[:, i] = v\<close>.\<close>

definition set_column :: "'a arr2 \<Rightarrow> nat \<Rightarrow> 'a list \<Rightarrow> 'a arr2" where
  "set_column A i v = Arr2 (ncols A) (map2 (\<lambda>r x. r[i := x]) (rows A) v)"

text \<open>
  \<^verbatim>\<open>np.hstack\<close> of three arrays raises unless they have the same number of rows. The
  result has the common element type of the three, also when one of them has no
  columns: objects if one of them holds objects, else strings if one of them holds
  strings, else floats. Every entry is converted to that type, and the only conversion
  that changes an entry is that of a float to a string, which gives the text of the
  float. That text is numpy's, not the module's: it is the parameter \<open>float_str\<close>. The
  floats that \<^verbatim>\<open>one_hot_encode\<close> stacks with strings are those of \<^verbatim>\<open>one_hot\<close>,
  \<open>0.0\<close> and \<open>1.0\<close>, whose texts are \<^verbatim>\<open>'0.0'\<close> and \<^verbatim>\<open>'1.0'\<close>.
\<close>

definition promote :: "dtype \<Rightarrow> dtype \<Rightarrow> dtype" where
  "promote a b =
     (if a = Object \<or> b = Object then Object
      else if a = Unicode \<or> b = Unicode then Unicode
      else Float64)"

fun cast :: "(real \<Rightarrow> string) \<Rightarrow> dtype \<Rightarrow> cell \<Rightarrow> cell" where
  "cast float_str Unicode (Num r) = Str (float_str r)"
| "cast float_str t c = c"

definition hstack3 ::
  "(real \<Rightarrow> string) \<Rightarrow> nparray \<Rightarrow> nparray \<Rightarrow> nparray \<Rightarrow> error + nparray" where
  "hstack3 float_str A B C =
     (if nrows (cells A) = nrows (cells B) \<and> nrows (cells B) = nrows (cells C)
      then let t = promote (dtype A) (promote (dtype B) (dtype C))
           in Inr (NP t (Arr2 (ncols (cells A) + ncols (cells B) + ncols (cells C))
                          (map (map (cast float_str t))
                             (map2 (@) (rows (cells A))
                                (map2 (@) (rows (cells B)) (rows (cells C)))))))
      else Inl ShapeError)"

text \<open>\<^verbatim>\<open>for i, category in enumerate(unique_values): one_hot[:, i] = (categorical_column == category).astype(int)\<close>\<close>

fun fill_one_hot :: "heap \<Rightarrow> nat \<Rightarrow> cell list \<Rightarrow> nat \<Rightarrow> cell list \<Rightarrow> heap" where
  "fill_one_hot h one_hot categorical_column i [] = h"
| "fill_one_hot h one_hot categorical_column i (category # rest) =
     fill_one_hot
       (h[one_hot := view (\<lambda>a. set_column a i
            (map (\<lambda>c. Num (if c = category then 1 else 0)) categorical_column)) (h ! one_hot)])
       one_hot categorical_column (Suc i) rest"

text \<open>The body of the loop over the indices, for the index \<open>index\<close>; \<open>X\<close> and
  \<open>X_transformed\<close> are addresses.\<close>

definition encode_index ::
  "(real \<Rightarrow> string) \<Rightarrow> heap \<Rightarrow> nat \<Rightarrow> bool \<Rightarrow> nat \<Rightarrow> int \<Rightarrow> (error + nat) \<times> heap" where
  "encode_index float_str h X drop_first X_transformed index =
     (case py_index (ncols (cells (h ! X))) index of
        Inl e \<Rightarrow> (Inl e, h)
      | Inr j \<Rightarrow>
     (let categorical_column = column (cells (h ! X)) j in
     (case np_unique categorical_column of
        Inl e \<Rightarrow> (Inl e, h)
      | Inr unique_values \<Rightarrow>
     (let (one_hot, h1) = alloc h (zeros (length categorical_column) (length unique_values));
          h2 = fill_one_hot h1 one_hot categorical_column 0 unique_values;
          block = (if drop_first then view cols_from1 (h2 ! one_hot) else h2 ! one_hot)
      in
     (case hstack3 float_str (view (\<lambda>a. cols_upto a index) (h2 ! X_transformed)) block
             (view (\<lambda>a. cols_from a (index + 1)) (h2 ! X_transformed)) of
        Inl e \<Rightarrow> (Inl e, h2)
      | Inr R \<Rightarrow> (let (r, h3) = alloc h2 R in (Inr r, h3)))))))"

fun encode_loop ::
  "(real \<Rightarrow> string) \<Rightarrow> heap \<Rightarrow> nat \<Rightarrow> bool \<Rightarrow> nat \<Rightarrow> int list \<Rightarrow> (error + nat) \<times> heap" where
  "encode_loop float_str h X drop_first X_transformed [] = (Inr X_transformed, h)"
| "encode_loop float_str h X drop_first X_transformed (index # rest) =
     (case encode_index float_str h X drop_first X_transformed index of
        (Inl e, h') \<Rightarrow> (Inl e, h')
      | (Inr X_transformed', h') \<Rightarrow> encode_loop float_str h' X drop_first X_transformed' rest)"

definition one_hot_encode ::
  "(real \<Rightarrow> string) \<Rightarrow> heap \<Rightarrow> nat \<Rightarrow> int list \<Rightarrow> bool \<Rightarrow> (error + nat) \<times> heap" where
  "one_hot_encode float_str h X categorical_indices drop_first =
     (let (X_transformed, h1) = alloc h (h ! X)
      in encode_loop float_str h1 X drop_first X_transformed (rev (sort categorical_indices)))"

section \<open>The fitting procedures as the specification writes them\<close>

text \<open>
  The entry in row \<open>i\<close> and column \<open>k\<close> of the bias-augmented matrix: column \<open>0\<close>
  holds ones, column \<open>k + 1\<close> is column \<open>k\<close> of \<open>X\<close>.
\<close>

definition xb :: "real arr2 \<Rightarrow> nat \<Rightarrow> nat \<Rightarrow> real" where
  "xb X i k = (if k = 0 then 1 else rows X ! i ! (k - 1))"

text \<open>
  The Gram matrix of the augmented matrix, the parameter vector
  \<open>\<theta> = G X\<^sub>b\<^sup>T y\<close> for a matrix \<open>G\<close>, and what it means for \<open>G\<close> to be the inverse of
  a square matrix \<open>A\<close>: the same shape, and both products the identity.
\<close>

definition spec_gram :: "real arr2 \<Rightarrow> real arr2" where
  "spec_gram X =
     Arr2 (Suc (ncols X))
       (map (\<lambda>k. map (\<lambda>l. \<Sum>i<nrows X. xb X i k * xb X i l) [0..<Suc (ncols X)])
          [0..<Suc (ncols X)])"

definition spec_theta :: "real arr2 \<Rightarrow> real arr2 \<Rightarrow> real list \<Rightarrow> real list" where
  "spec_theta G X y =
     map (\<lambda>k. \<Sum>i<nrows X. (\<Sum>l<Suc (ncols X). rows G ! k ! l * xb X i l) * y ! i)
       [0..<Suc (ncols X)]"

definition is_inverse :: "real arr2 \<Rightarrow> real arr2 \<Rightarrow> bool" where
  "is_inverse G A =
     (rect G \<and> ncols G = ncols A \<and> nrows G = nrows A \<and>
      list_all (\<lambda>k. list_all (\<lambda>m.
          (\<Sum>l<ncols A. rows A ! k ! l * rows G ! l ! m) = (if k = m then 1 else 0)
        \<and> (\<Sum>l<ncols A. rows G ! k ! l * rows A ! l ! m) = (if k = m then 1 else 0))
        [0..<ncols A]) [0..<ncols A])"

text \<open>
  One epoch of gradient descent on the pair of intercept and coefficients: predictions
  over the feature columns, error, gradient over the augmented matrix, update. The
  starting pair is drawn from the random numbers: the first \<open>p\<close> numbers for the
  coefficients, the next one for the intercept, each times \<open>0.01\<close>.
\<close>

definition spec_gd_step :: "real arr2 \<Rightarrow> real list \<Rightarrow> real \<Rightarrow> real \<times> real list \<Rightarrow> real \<times> real list" where
  "spec_gd_step X y learning_rate = (\<lambda>(b, c).
     let n = nrows X;
         prediction = (\<lambda>i. (\<Sum>j<ncols X. rows X ! i ! j * c ! j) + b);
         err = (\<lambda>i. prediction i - y ! i);
         g = (\<lambda>k. learning_rate / real n * (\<Sum>i<n. xb X i k * err i))
     in (b - g 0, map (\<lambda>j. c ! j - g (Suc j)) [0..<ncols X]))"

definition spec_gd_init :: "(nat \<Rightarrow> real) \<Rightarrow> nat \<Rightarrow> real \<times> real list" where
  "spec_gd_init rng p = (rng p * 0.01, map (\<lambda>i. rng i * 0.01) [0..<p])"



section \<open>The metrics as the specification writes them\<close>

text \<open>
  The three metrics in the words of the specification: sums over the indices of the
  vectors, the quotients taken with the division that yields an infinity or not-a-number
  on a zero divisor.
\<close>

definition spec_ss_res :: "real list \<Rightarrow> real list \<Rightarrow> real" where
  "spec_ss_res y_true y_pred = (\<Sum>i<length y_true. (y_true ! i - y_pred ! i)\<^sup>2)"

definition spec_mean :: "real list \<Rightarrow> real" where
  "spec_mean y_true = (\<Sum>i<length y_true. y_true ! i) / real (length y_true)"

definition spec_ss_tot :: "real list \<Rightarrow> real" where
  "spec_ss_tot y_true = (\<Sum>i<length y_true. (y_true ! i - spec_mean y_true)\<^sup>2)"

definition spec_R2 :: "real list \<Rightarrow> real list \<Rightarrow> fval" where
  "spec_R2 y_true y_pred =
     fsub (Fin 1) (fdiv (Fin (spec_ss_res y_true y_pred)) (Fin (spec_ss_tot y_true)))"

definition spec_RMSE :: "real list \<Rightarrow> real list \<Rightarrow> fval" where
  "spec_RMSE y_true y_pred =
     fsqrt (fdiv (Fin (spec_ss_res y_true y_pred)) (Fin (real (length y_true))))"

definition spec_MAE :: "real list \<Rightarrow> real list \<Rightarrow> fval" where
  "spec_MAE y_true y_pred =
     fdiv (Fin (\<Sum>i<length y_true. \<bar>y_true ! i - y_pred ! i\<bar>)) (Fin (real (length y_true)))"


section \<open>The encoding as the specification writes it\<close>

text \<open>
  The indicator values of the entry \<open>c\<close> for the sorted distinct values \<open>us\<close>: one for
  each value, \<open>1\<close> where \<open>c\<close> is that value; without the first of them when the first
  level is dropped.
\<close>

definition indicators :: "cell list \<Rightarrow> cell \<Rightarrow> real list" where
  "indicators us c = map (\<lambda>u. if c = u then 1 else 0) us"

definition encoded :: "cell list \<Rightarrow> bool \<Rightarrow> cell \<Rightarrow> real list" where
  "encoded us drop_first c = (if drop_first then tl (indicators us c) else indicators us c)"

text \<open>The order in which \<^verbatim>\<open>np.unique\<close> sorts: numbers by value, strings
  lexicographically.\<close>

fun cell_le :: "cell \<Rightarrow> cell \<Rightarrow> bool" where
  "cell_le (Num a) (Num b) = (a \<le> b)"
| "cell_le (Str s) (Str t) = (s \<le> t)"
| "cell_le _ _ = False"

text \<open>An index can be encoded when it is in range for the columns of the array and
  the values of its column can be sorted.\<close>

definition encodable :: "cell arr2 \<Rightarrow> int \<Rightarrow> bool" where
  "encodable A index =
     (case py_index (ncols A) index of
        Inl e \<Rightarrow> False
      | Inr j \<Rightarrow> (case np_unique (column A j) of Inl e \<Rightarrow> False | Inr us \<Rightarrow> True))"

text \<open>The sorted distinct values of column \<open>j\<close>, and a row of the result: every entry
  whose column is in the index list is replaced by its indicator values, every other
  entry is kept.\<close>

definition uniq :: "cell arr2 \<Rightarrow> nat \<Rightarrow> cell list" where
  "uniq A j = (case np_unique (column A j) of Inl e \<Rightarrow> [] | Inr us \<Rightarrow> us)"

definition encode_row :: "cell arr2 \<Rightarrow> int list \<Rightarrow> bool \<Rightarrow> cell list \<Rightarrow> cell list" where
  "encode_row A idxs drop_first row =
     concat (map (\<lambda>j. if int j \<in> set idxs
                        then map Num (encoded (uniq A j) drop_first (row ! j))
                        else [row ! j]) [0..<ncols A])"

section \<open>Proofs\<close>

subsection \<open>Auxiliary facts\<close>

lemma inner_sum: "length r = length c \<Longrightarrow> inner r c = (\<Sum>j<length c. r ! j * c ! j)"
  by (simp add: inner_def sum_list_sum_nth atLeast0LessThan)

lemma np_sub_same_length: "length a = length b \<Longrightarrow> np_sub a b = Inr (map2 (-) a b)"
  by (simp add: np_sub_def)

lemma sum_list_map_nth: "sum_list (map f xs) = (\<Sum>i<length xs. f (xs ! i))"
  by (simp add: sum_list_sum_nth atLeast0LessThan)

lemma sum_list_map2_nth:
  "length a = length b \<Longrightarrow> sum_list (map f (map2 g a b)) = (\<Sum>i<length a. f (g (a ! i) (b ! i)))"
  by (simp add: sum_list_sum_nth atLeast0LessThan)

lemma foldl_fadd_Fin: "foldl fadd (Fin a) (map (\<lambda>y. Fin (g y)) ys) = Fin (a + sum_list (map g ys))"
  by (induction ys arbitrary: a) (simp_all add: add.assoc)

lemma fsum_Fin: "fsum (map (\<lambda>y. Fin (g y)) ys) = Fin (sum_list (map g ys))"
  by (simp add: fsum_def foldl_fadd_Fin)

lemma np_mean_Fin: "ys \<noteq> [] \<Longrightarrow> np_mean ys = Fin (spec_mean ys)"
  by (simp add: np_mean_def spec_mean_def sum_list_sum_nth atLeast0LessThan)

lemma ss_tot_code:
  "fsum (map (\<lambda>y. fmul (fsub (Fin y) (np_mean ys)) (fsub (Fin y) (np_mean ys))) ys)
     = Fin (spec_ss_tot ys)"
proof (cases "ys = []")
  case True
  then show ?thesis by (simp add: fsum_def spec_ss_tot_def)
next
  case False
  have "fsum (map (\<lambda>y. fmul (fsub (Fin y) (np_mean ys)) (fsub (Fin y) (np_mean ys))) ys)
        = fsum (map (\<lambda>y. Fin ((y - spec_mean ys) * (y - spec_mean ys))) ys)"
    by (simp add: np_mean_Fin [OF False] fsub_def)
  also have "\<dots> = Fin (sum_list (map (\<lambda>y. (y - spec_mean ys) * (y - spec_mean ys)) ys))"
    by (rule fsum_Fin)
  also have "\<dots> = Fin (spec_ss_tot ys)"
    by (simp add: sum_list_map_nth spec_ss_tot_def power2_eq_square)
  finally show ?thesis .
qed

lemma evaluate_regression_eq:
  assumes "length y_pred = length y_true"
  shows "evaluate_regression y_true y_pred =
           Inr [(''R2'', spec_R2 y_true y_pred), (''RMSE'', spec_RMSE y_true y_pred),
                (''MAE'', spec_MAE y_true y_pred)]"
proof -
  define d where "d = map2 (-) y_true y_pred"
  have l: "length y_true = length y_pred" using assms by simp
  have sub: "np_sub y_true y_pred = Inr d"
    by (simp add: np_sub_same_length [OF l] d_def)
  have res: "sum_list (map (\<lambda>x. x * x) d) = spec_ss_res y_true y_pred"
    unfolding d_def spec_ss_res_def sum_list_map2_nth [OF l] by (simp add: power2_eq_square)
  have ab: "sum_list (map abs d) = (\<Sum>i<length y_true. \<bar>y_true ! i - y_pred ! i\<bar>)"
    unfolding d_def sum_list_map2_nth [OF l] by simp
  show ?thesis
    by (simp add: evaluate_regression_def sub Let_def ss_tot_code res ab spec_R2_def
        spec_RMSE_def spec_MAE_def del: fdiv.simps fsqrt.simps)
qed

lemma cols_from1_insert_ones: "cols_from1 (insert_ones X) = X"
  by (cases X) (simp add: cols_from1_def insert_ones_def comp_def)

lemma column_insert_ones:
  "i < nrows X \<Longrightarrow> column (insert_ones X) k ! i = xb X i k"
  by (simp add: column_def insert_ones_def nrows_def xb_def nth_Cons')

lemma length_column [simp]: "length (column A k) = nrows A"
  by (simp add: column_def nrows_def)

lemma nrows_insert_ones [simp]: "nrows (insert_ones X) = nrows X"
  by (simp add: nrows_def insert_ones_def)

lemma ncols_insert_ones [simp]: "ncols (insert_ones X) = Suc (ncols X)"
  by (simp add: insert_ones_def)

lemma inner_column_insert_ones:
  "length v = nrows X \<Longrightarrow> inner (column (insert_ones X) k) v = (\<Sum>i<nrows X. xb X i k * v ! i)"
  by (simp add: inner_sum column_insert_ones)

lemma regressor_update_both:
  "(self :: regressor)\<lparr>coefficients := a, intercept := b\<rparr> = \<lparr>coefficients = a, intercept = b\<rparr>"
  by (cases self) simp

lemma length_rows_transpose [simp]: "length (rows (transpose_a X)) = ncols X"
  by (simp add: transpose_a_def)

lemma ncols_transpose [simp]: "ncols (transpose_a X) = nrows X"
  by (simp add: transpose_a_def)



lemma np_isub_length: "np_isub a b = Inr w \<Longrightarrow> length w = length a"
  by (auto simp: np_isub_def split: if_splits)

subsection \<open>Least squares\<close>

lemma gram_code:
  "dot_mm (transpose_a (insert_ones X)) (insert_ones X) = Inr (spec_gram X)"
  by (simp add: dot_mm_def transpose_a_def spec_gram_def inner_column_insert_ones
      inner_sum column_insert_ones del: upt_Suc)

lemma column_transpose_insert_ones:
  "i < nrows X \<Longrightarrow> column (transpose_a (insert_ones X)) i = map (\<lambda>l. xb X i l) [0..<Suc (ncols X)]"
  by (simp add: column_def transpose_a_def insert_ones_def nrows_def xb_def nth_Cons' del: upt_Suc)

lemma theta_code:
  assumes r: "rect G" and c: "ncols G = Suc (ncols X)" and n: "nrows G = Suc (ncols X)"
    and ly: "length y = nrows X"
  shows "\<exists>GXt. dot_mm G (transpose_a (insert_ones X)) = Inr GXt
           \<and> dot_mv GXt y = Inr (spec_theta G X y)"
proof -
  define GXt where "GXt = Arr2 (nrows X)
      (map (\<lambda>g. map (\<lambda>i. \<Sum>l<Suc (ncols X). g ! l * xb X i l) [0..<nrows X]) (rows G))"
  have lg: "\<And>g. g \<in> set (rows G) \<Longrightarrow> length g = Suc (ncols X)"
    using r c by (simp add: rect_def list_all_iff)
  have 1: "dot_mm G (transpose_a (insert_ones X)) = Inr GXt"
    using c lg
    by (simp add: dot_mm_def nrows_def [of "transpose_a _"] GXt_def column_transpose_insert_ones
        inner_sum del: upt_Suc)
  have lr: "length (rows G) = Suc (ncols X)" using n by (simp add: nrows_def)
  have 2: "dot_mv GXt y = Inr (spec_theta G X y)"
    unfolding dot_mv_def spec_theta_def
    by (auto simp: GXt_def ly inner_sum lr intro!: nth_equalityI simp del: upt_Suc)
  show ?thesis using 1 2 by blast
qed

lemma spec_gram_shape:
  "ncols (spec_gram X) = Suc (ncols X)" "nrows (spec_gram X) = Suc (ncols X)"
  by (simp_all add: spec_gram_def nrows_def)

lemma spec_gram_entry:
  "k < Suc (ncols X) \<Longrightarrow> l < Suc (ncols X) \<Longrightarrow>
   rows (spec_gram X) ! k ! l = (\<Sum>i<nrows X. xb X i k * xb X i l)"
  by (simp add: spec_gram_def del: upt_Suc)

lemma normal_equation:
  assumes inv: "is_inverse G (spec_gram X)" and k: "k < Suc (ncols X)"
  shows "(\<Sum>l<Suc (ncols X). rows (spec_gram X) ! k ! l * spec_theta G X y ! l)
           = (\<Sum>i<nrows X. xb X i k * y ! i)"
proof -
  define d where "d = Suc (ncols X)"
  define A where "A = (\<lambda>k l. rows (spec_gram X) ! k ! l)"
  define H where "H = (\<lambda>k l. rows G ! k ! l)"
  have kd: "k < d" using k by (simp add: d_def)
  have id: "\<And>m. m < d \<Longrightarrow> (\<Sum>l<d. A k l * H l m) = (if k = m then 1 else 0)"
    using inv k unfolding d_def A_def H_def
    by (simp add: is_inverse_def spec_gram_shape list_all_iff del: upt_Suc sum.lessThan_Suc)
  have th: "\<And>l. l < d \<Longrightarrow> spec_theta G X y ! l = (\<Sum>i<nrows X. (\<Sum>m<d. H l m * xb X i m) * y ! i)"
    unfolding d_def H_def by (simp add: spec_theta_def del: upt_Suc sum.lessThan_Suc)
  have "(\<Sum>l<d. A k l * spec_theta G X y ! l)
          = (\<Sum>l<d. A k l * (\<Sum>i<nrows X. (\<Sum>m<d. H l m * xb X i m) * y ! i))"
    using th by simp
  also have "\<dots> = (\<Sum>l<d. \<Sum>i<nrows X. \<Sum>m<d. A k l * H l m * (xb X i m * y ! i))"
    by (simp add: sum_distrib_left sum_distrib_right mult.assoc)
  also have "\<dots> = (\<Sum>i<nrows X. \<Sum>l<d. \<Sum>m<d. A k l * H l m * (xb X i m * y ! i))"
    by (rule sum.swap)
  also have "\<dots> = (\<Sum>i<nrows X. \<Sum>m<d. \<Sum>l<d. A k l * H l m * (xb X i m * y ! i))"
    by (rule sum.cong [OF refl]) (rule sum.swap)
  also have "\<dots> = (\<Sum>i<nrows X. \<Sum>m<d. (\<Sum>l<d. A k l * H l m) * (xb X i m * y ! i))"
    by (simp add: sum_distrib_right)
  also have "\<dots> = (\<Sum>i<nrows X. \<Sum>m<d. (if k = m then 1 else 0) * (xb X i m * y ! i))"
    using id by simp
  also have "\<dots> = (\<Sum>i<nrows X. \<Sum>m<d. (if k = m then xb X i m * y ! i else 0))"
    by (rule sum.cong [OF refl], rule sum.cong [OF refl]) simp
  also have "\<dots> = (\<Sum>i<nrows X. xb X i k * y ! i)"
    using kd by (simp add: sum.delta')
  finally show ?thesis unfolding d_def A_def .
qed

text \<open>
  Claim C1. Let \<open>X\<close> be a two-dimensional matrix and \<open>y\<close> a vector with one entry for
  each row, and let \<^verbatim>\<open>np.linalg.inv\<close> return the inverse \<open>G\<close> of the Gram matrix of
  the augmented matrix. Then \<^verbatim>\<open>fit\<close> with the method \<^verbatim>\<open>"least_squares"\<close> returns
  normally and leaves \<open>\<theta> = G X\<^sub>b\<^sup>T y\<close> on the object: the intercept is \<open>\<theta>[0]\<close>, the
  coefficients are \<open>\<theta>[1:]\<close>. This \<open>\<theta>\<close> has one entry for each column of the augmented
  matrix and solves the normal equation \<open>(X\<^sub>b\<^sup>T X\<^sub>b) \<theta> = X\<^sub>b\<^sup>T y\<close>.
\<close>

theorem fit_least_squares_normal_equation:
  assumes "length y = nrows X"
    and "linalg_inv (spec_gram X) = Inr G"
    and "is_inverse G (spec_gram X)"
  shows "fit linalg_inv rng self (A2 X) y ''least_squares'' learning_rate iterations =
           (None, \<lparr>coefficients = Some (tl (spec_theta G X y)),
                   intercept = Some (spec_theta G X y ! 0)\<rparr>)
         \<and> length (spec_theta G X y) = Suc (ncols X)
         \<and> list_all (\<lambda>k. (\<Sum>l<Suc (ncols X). rows (spec_gram X) ! k ! l * spec_theta G X y ! l)
                            = (\<Sum>i<nrows X. xb X i k * y ! i)) [0..<Suc (ncols X)]"
proof -
  have r: "rect G" and c: "ncols G = Suc (ncols X)" and n: "nrows G = Suc (ncols X)"
    using assms(3) by (simp_all add: is_inverse_def spec_gram_shape)
  obtain GXt where 1: "dot_mm G (transpose_a (insert_ones X)) = Inr GXt"
    and 2: "dot_mv GXt y = Inr (spec_theta G X y)"
    using theta_code [OF r c n assms(1)] by blast
  have l: "length (spec_theta G X y) = Suc (ncols X)"
    by (simp add: spec_theta_def)
  then obtain t0 ts where t: "spec_theta G X y = t0 # ts"
    by (cases "spec_theta G X y") simp_all
  have "fit linalg_inv rng self (A2 X) y ''least_squares'' learning_rate iterations =
           (None, \<lparr>coefficients = Some (tl (spec_theta G X y)),
                   intercept = Some (spec_theta G X y ! 0)\<rparr>)"
    by (simp add: fit_def fit_multiple_def gram_code assms(2) 1 2 t regressor_update_both
        del: upt_Suc)
  moreover have "list_all (\<lambda>k. (\<Sum>l<Suc (ncols X). rows (spec_gram X) ! k ! l * spec_theta G X y ! l)
                            = (\<Sum>i<nrows X. xb X i k * y ! i)) [0..<Suc (ncols X)]"
    unfolding list_all_iff using normal_equation [OF assms(3)]
    by (simp del: upt_Suc sum.lessThan_Suc)
  ultimately show ?thesis using l by (simp del: upt_Suc sum.lessThan_Suc)
qed

theorem fit_least_squares_normal_equation_witness:
  "length [3, 5 :: real] = nrows (Arr2 1 [[1], [2 :: real]])
   \<and> is_inverse (Arr2 2 [[5, - 3], [- 3, 2]]) (spec_gram (Arr2 1 [[1], [2]]))
   \<and> fit (\<lambda>A. if A = Arr2 2 [[2, 3], [3, 5]] then Inr (Arr2 2 [[5, - 3], [- 3, 2]])
               else Inl LinAlgError)
        (\<lambda>i. 0) init (A2 (Arr2 1 [[1], [2]])) [3, 5] ''least_squares'' 0.01 1000 =
       (None, \<lparr>coefficients = Some [2], intercept = Some 1\<rparr>)"
proof -
  have g: "spec_gram (Arr2 1 [[1], [2]]) = Arr2 2 [[2, 3], [3, 5]]"
    by (simp add: spec_gram_def xb_def nrows_def lessThan_Suc numeral_2_eq_2)
  have h1: "length [3, 5 :: real] = nrows (Arr2 1 [[1], [2 :: real]])"
    by (simp add: nrows_def)
  define li :: "real arr2 \<Rightarrow> error + real arr2" where
    "li = (\<lambda>A. if A = Arr2 2 [[2, 3], [3, 5]] then Inr (Arr2 2 [[5, - 3], [- 3, 2]])
               else Inl LinAlgError)"
  have h2: "li (spec_gram (Arr2 1 [[1], [2]])) = Inr (Arr2 2 [[5, - 3], [- 3, 2]])"
    unfolding g li_def by simp
  have h3: "is_inverse (Arr2 2 [[5, - 3], [- 3, 2]]) (spec_gram (Arr2 1 [[1], [2]]))"
    unfolding g by (simp add: is_inverse_def rect_def nrows_def lessThan_Suc numeral_2_eq_2)
  have t: "spec_theta (Arr2 2 [[5, - 3], [- 3, 2]]) (Arr2 1 [[1], [2]]) [3, 5] = [1, 2]"
    by (simp add: spec_theta_def xb_def nrows_def lessThan_Suc numeral_2_eq_2)
  show ?thesis
    using h1 h3
      fit_least_squares_normal_equation [of "[3, 5]" "Arr2 1 [[1], [2]]" li
        "Arr2 2 [[5, - 3], [- 3, 2]]" "\<lambda>i. 0" init "0.01" 1000, OF h1 h2 h3, THEN conjunct1]
    unfolding li_def t by simp
qed

subsection \<open>Gradient descent\<close>

lemma gd_epoch_spec:
  assumes r: "rect X" and ly: "length y = nrows X" and n: "0 < nrows X"
    and lc: "length c = ncols X"
  shows "gd_epoch (insert_ones X) y learning_rate (length y)
           \<lparr>coefficients = Some c, intercept = Some b\<rparr>
         = (None, \<lparr>coefficients = Some (snd (spec_gd_step X y learning_rate (b, c))),
                   intercept = Some (fst (spec_gd_step X y learning_rate (b, c)))\<rparr>)"
proof -
  define pr where "pr = map (\<lambda>r. (\<Sum>j<ncols X. r ! j * c ! j) + b) (rows X)"
  define er where "er = map2 (-) pr y"
  define gr where "gr = map (\<lambda>k. learning_rate / real (nrows X) * (\<Sum>i<nrows X. xb X i k * er ! i))
                          [0..<Suc (ncols X)]"
  have p: "predict \<lparr>coefficients = Some c, intercept = Some b\<rparr> (A2 (cols_from1 (insert_ones X)))
             = Inr pr"
    using r lc
    by (simp add: cols_from1_insert_ones predict_def dot_mv_def pr_def rect_def list_all_iff inner_sum)
  have lp: "length pr = nrows X" by (simp add: pr_def nrows_def)
  have e: "np_sub pr y = Inr er"
    by (simp add: np_sub_def lp ly er_def)
  have le: "length er = nrows X" by (simp add: er_def lp ly)
  have d: "dot_mv (transpose_a (insert_ones X)) er
             = Inr (map (\<lambda>k. \<Sum>i<nrows X. xb X i k * er ! i) [0..<Suc (ncols X)])"
    using le by (simp add: dot_mv_def transpose_a_def inner_column_insert_ones del: upt_Suc)
  have g: "map (\<lambda>g. learning_rate / real (length y) * g)
             (map (\<lambda>k. \<Sum>i<nrows X. xb X i k * er ! i) [0..<Suc (ncols X)]) = gr"
    by (simp add: gr_def ly del: upt_Suc)
  have gc: "gr = hd gr # tl gr" by (simp add: gr_def upt_conv_Cons del: upt_Suc)
  have lt: "length (tl gr) = length c" by (simp add: gr_def lc)
  have ep: "gd_epoch (insert_ones X) y learning_rate (length y)
           \<lparr>coefficients = Some c, intercept = Some b\<rparr>
         = (None, \<lparr>coefficients = Some (map2 (-) c (tl gr)), intercept = Some (b - hd gr)\<rparr>)"
  proof -
    have m0: "(length y = 0) = False" using n ly by simp
    have cs: "(case gr of [] \<Rightarrow> u | g0 # gs \<Rightarrow> v g0 gs) = v (hd gr) (tl gr)" for u :: "error option \<times> regressor" and v
      by (subst gc) simp
    have isub: "np_isub c (tl gr) = Inr (map2 (-) c (tl gr))"
      unfolding np_isub_def using lt by simp
    show ?thesis
      unfolding gd_epoch_def
      apply (simp only: p sum.case e m0 if_False d g cs)
      apply (simp add: isub)
      done
  qed
  have er_nth: "\<And>i. i < nrows X \<Longrightarrow> er ! i = (\<Sum>j<ncols X. rows X ! i ! j * c ! j) + b - y ! i"
    by (simp add: er_def pr_def lp ly nrows_def)
  have h: "hd gr = learning_rate / real (nrows X) *
             (\<Sum>i<nrows X. xb X i 0 * ((\<Sum>j<ncols X. rows X ! i ! j * c ! j) + b - y ! i))"
    by (simp add: gr_def upt_conv_Cons er_nth del: upt_Suc)
  have t: "map2 (-) c (tl gr) = map (\<lambda>j. c ! j - learning_rate / real (nrows X) *
             (\<Sum>i<nrows X. xb X i (Suc j) * ((\<Sum>j<ncols X. rows X ! i ! j * c ! j) + b - y ! i)))
             [0..<ncols X]"
    by (rule nth_equalityI) (simp_all add: lc gr_def nth_tl er_nth del: upt_Suc)
  show ?thesis
    unfolding ep by (simp add: spec_gd_step_def Let_def h t)
qed

lemma spec_gd_step_length: "length (snd (spec_gd_step X y learning_rate (b, c))) = ncols X"
  by (simp add: spec_gd_step_def Let_def)

lemma gd_loop_spec:
  assumes "rect X" and "length y = nrows X" and "0 < nrows X"
  shows "length c = ncols X \<Longrightarrow>
         gd_loop (insert_ones X) y learning_rate (length y) k
           \<lparr>coefficients = Some c, intercept = Some b\<rparr>
         = (None, \<lparr>coefficients = Some (snd ((spec_gd_step X y learning_rate ^^ k) (b, c))),
                   intercept = Some (fst ((spec_gd_step X y learning_rate ^^ k) (b, c)))\<rparr>)"
proof (induction k arbitrary: b c)
  case 0
  then show ?case by simp
next
  case (Suc k)
  obtain b1 c1 where s: "spec_gd_step X y learning_rate (b, c) = (b1, c1)"
    by (cases "spec_gd_step X y learning_rate (b, c)")
  have l1: "length c1 = ncols X"
    using spec_gd_step_length [of X y learning_rate b c] s by simp
  have "gd_loop (insert_ones X) y learning_rate (length y) (Suc k)
           \<lparr>coefficients = Some c, intercept = Some b\<rparr>
        = gd_loop (insert_ones X) y learning_rate (length y) k
           \<lparr>coefficients = Some c1, intercept = Some b1\<rparr>"
    using gd_epoch_spec [OF assms Suc.prems, of learning_rate b] s by simp
  then show ?case
    using Suc.IH [OF l1, of b1] s by (simp add: funpow_swap1)
qed

text \<open>
  Claim C2, as amended. For every matrix \<open>X\<close> with at least one row, every vector \<open>y\<close>
  with one entry for each row, every learning rate and every iteration count,
  \<^verbatim>\<open>fit\<close> with the method \<^verbatim>\<open>"gradient_descent"\<close> returns normally, and the
  parameters it leaves on the object are those reached from the random starting values
  by exactly \<open>iterations\<close> update steps of the specification (none for a negative
  count): there is no early exit.
\<close>

theorem fit_gradient_descent_steps:
  assumes "rect X" and "length y = nrows X" and "0 < nrows X"
  shows "fit linalg_inv rng self (A2 X) y ''gradient_descent'' learning_rate iterations =
           (None,
            \<lparr>coefficients = Some (snd ((spec_gd_step X y learning_rate ^^ nat iterations)
                                          (spec_gd_init rng (ncols X)))),
             intercept = Some (fst ((spec_gd_step X y learning_rate ^^ nat iterations)
                                          (spec_gd_init rng (ncols X))))\<rparr>)"
proof -
  have l: "length (map (\<lambda>i. rng i * 0.01) [0..<ncols X]) = ncols X" by simp
  show ?thesis
    using gd_loop_spec [OF assms l, of learning_rate "nat iterations" "rng (ncols X) * 0.01"]
    by (simp add: fit_def fit_gradient_descent_def Let_def spec_gd_init_def regressor_update_both)
qed

theorem fit_gradient_descent_steps_witness:
  "rect (Arr2 1 [[1], [2 :: real]]) \<and> length [3, 5 :: real] = nrows (Arr2 1 [[1], [2 :: real]])
   \<and> 0 < nrows (Arr2 1 [[1], [2 :: real]])
   \<and> fit (\<lambda>A. Inl LinAlgError) (\<lambda>i. 0) init (A2 (Arr2 1 [[1], [2]])) [3, 5]
        ''gradient_descent'' (1 / 2) 2 =
       (None, \<lparr>coefficients = Some [15 / 16], intercept = Some (9 / 16)\<rparr>)"
proof -
  have h: "rect (Arr2 1 [[1], [2 :: real]])" "length [3, 5 :: real] = nrows (Arr2 1 [[1], [2 :: real]])"
    "0 < nrows (Arr2 1 [[1], [2 :: real]])"
    by (simp_all add: rect_def nrows_def)
  show ?thesis
    using h fit_gradient_descent_steps [OF h, of "\<lambda>A. Inl LinAlgError" "\<lambda>i. 0" init "1 / 2" 2]
    by (simp add: spec_gd_init_def spec_gd_step_def Let_def xb_def nrows_def lessThan_Suc
        numeral_2_eq_2)
qed

text \<open>
  Claim C2 as stated fails on a matrix without rows: \<^verbatim>\<open>len(y)\<close> is \<open>0\<close>, the
  quotient \<^verbatim>\<open>learning_rate/m\<close> raises in the first epoch and no update step is made.
\<close>

theorem fit_gradient_descent_empty_counterexample:
  "rect (Arr2 1 ([] :: real list list)) \<and> length ([] :: real list) = nrows (Arr2 1 ([] :: real list list))
   \<and> fit (\<lambda>A. Inl LinAlgError) (\<lambda>i. 1 / 2) init (A2 (Arr2 1 [])) [] ''gradient_descent'' 0.01 1 =
       (Some ZeroDivisionError, \<lparr>coefficients = Some [1 / 200], intercept = Some (1 / 200)\<rparr>)
   \<and> fit (\<lambda>A. Inl LinAlgError) (\<lambda>i. 1 / 2) init (A2 (Arr2 1 [])) [] ''gradient_descent'' 0.01 1 \<noteq>
       (None,
        \<lparr>coefficients = Some (snd ((spec_gd_step (Arr2 1 []) [] 0.01 ^^ nat 1)
                                      (spec_gd_init (\<lambda>i. 1 / 2) 1))),
         intercept = Some (fst ((spec_gd_step (Arr2 1 []) [] 0.01 ^^ nat 1)
                                      (spec_gd_init (\<lambda>i. 1 / 2) 1)))\<rparr>)"
  by (simp add: rect_def nrows_def fit_def fit_gradient_descent_def Let_def insert_ones_def
      gd_epoch_def predict_def cols_from1_def dot_mv_def np_sub_def init_def)

subsection \<open>The object after a failed \<^verbatim>\<open>fit\<close>\<close>








subsection \<open>The method argument of \<^verbatim>\<open>fit\<close>\<close>

text \<open>
  Claim C4. For every \<open>X\<close>, \<open>y\<close> and every method string other than
  \<^verbatim>\<open>"least_squares"\<close> and \<^verbatim>\<open>"gradient_descent"\<close>, \<^verbatim>\<open>fit\<close> raises the
  \<^verbatim>\<open>ValueError\<close> whose message names the method, and the object is returned as it
  was: the result does not depend on the data, on the inverse or on the random numbers,
  so nothing was computed.
\<close>

theorem fit_invalid_method:
  "method \<noteq> ''least_squares'' \<Longrightarrow> method \<noteq> ''gradient_descent'' \<Longrightarrow>
   fit linalg_inv rng self X y method learning_rate iterations =
     (Some (ValueError (''Method '' @ method
              @ '' not available for training linear regression.'')), self)"
  by (simp add: fit_def)

theorem fit_invalid_method_witness:
  "''ols'' \<noteq> ''least_squares'' \<and> ''ols'' \<noteq> ''gradient_descent'' \<and>
   fit (\<lambda>A. Inl LinAlgError) (\<lambda>i. 0) \<lparr>coefficients = Some [2], intercept = Some 1\<rparr>
       (A2 (Arr2 1 [[1], [2]])) [3, 5] ''ols'' 0.01 1000 =
     (Some (ValueError ''Method ols not available for training linear regression.''),
      \<lparr>coefficients = Some [2], intercept = Some 1\<rparr>)"
  using fit_invalid_method [of "''ols''" "\<lambda>A. Inl LinAlgError" "\<lambda>i. 0"
      "\<lparr>coefficients = Some [2], intercept = Some 1\<rparr>" "A2 (Arr2 1 [[1], [2]])" "[3, 5]" "0.01" 1000]
  by simp

subsection \<open>\<^verbatim>\<open>predict\<close>\<close>

text \<open>
  Claim C5. \<^verbatim>\<open>predict\<close> on an object whose coefficients or intercept is unset, in
  particular on a new object, raises the "not yet fitted" error, whatever \<open>X\<close> is. When
  both are set, it returns for a two-dimensional \<open>X\<close> whose rows are as long as the
  coefficient vector the products of the rows with the coefficients plus the intercept,
  and a one-dimensional \<open>X\<close> is treated as the matrix with one column.
\<close>

theorem predict_spec:
  "(coefficients self = None \<or> intercept self = None \<longrightarrow>
      predict self X = Inl (ValueError ''Model is not yet fitted''))
   \<and> predict init X = Inl (ValueError ''Model is not yet fitted'')
   \<and> (coefficients self = Some c \<and> intercept self = Some b \<and> rect M \<and> ncols M = length c \<longrightarrow>
      predict self (A2 M) = Inr (map (\<lambda>r. (\<Sum>j<length c. r ! j * c ! j) + b) (rows M)))
   \<and> (coefficients self = Some [c0] \<and> intercept self = Some b \<longrightarrow>
      predict self (A1 xs) = Inr (map (\<lambda>x. x * c0 + b) xs))
   \<and> predict self (A1 xs) = predict self (A2 (reshape_col xs))"
  by (auto simp: predict_def init_def dot_mv_def rect_def list_all_iff inner_sum reshape_col_def
      lessThan_Suc split: option.splits)

theorem predict_spec_witness:
  "predict \<lparr>coefficients = None, intercept = Some 1\<rparr> (A1 [1, 2]) =
     Inl (ValueError ''Model is not yet fitted'')
   \<and> rect (Arr2 2 [[1, 1], [2, 0 :: real]])
   \<and> predict \<lparr>coefficients = Some [2, 3], intercept = Some 1\<rparr> (A2 (Arr2 2 [[1, 1], [2, 0]])) =
       Inr [6, 5]
   \<and> predict \<lparr>coefficients = Some [5], intercept = Some 1\<rparr> (A1 [1, 2]) = Inr [6, 11]"
proof -
  have a: "predict \<lparr>coefficients = None, intercept = Some 1\<rparr> (A1 [1, 2]) =
             Inl (ValueError ''Model is not yet fitted'')"
    using predict_spec [of "\<lparr>coefficients = None, intercept = Some 1\<rparr>" "A1 [1, 2]",
        THEN conjunct1]
    by simp
  have r: "rect (Arr2 2 [[1, 1], [2, 0 :: real]])"
    by (simp add: rect_def)
  have b: "predict \<lparr>coefficients = Some [2, 3], intercept = Some 1\<rparr>
             (A2 (Arr2 2 [[1, 1], [2, 0]])) = Inr [6, 5]"
    using r predict_spec [of "\<lparr>coefficients = Some [2, 3], intercept = Some 1\<rparr>" "A1 []"
        "[2, 3]" 1 "Arr2 2 [[1, 1], [2, 0]]" 0 "[]",
        THEN conjunct2, THEN conjunct2, THEN conjunct1]
    by (simp add: lessThan_Suc numeral_2_eq_2)
  have c: "predict \<lparr>coefficients = Some [5], intercept = Some 1\<rparr> (A1 [1, 2]) = Inr [6, 11]"
    using predict_spec [of "\<lparr>coefficients = Some [5], intercept = Some 1\<rparr>" "A1 []"
        "[5]" 1 "Arr2 0 []" 5 "[1, 2]",
        THEN conjunct2, THEN conjunct2, THEN conjunct2, THEN conjunct1]
    by simp
  show ?thesis using a r b c by simp
qed

subsection \<open>\<^verbatim>\<open>evaluate_regression\<close>\<close>

text \<open>
  Claim C6. For vectors of equal length, \<^verbatim>\<open>evaluate_regression\<close> returns the
  dictionary with exactly the keys \<^verbatim>\<open>R2\<close>, \<^verbatim>\<open>RMSE\<close> and \<^verbatim>\<open>MAE\<close>, whose values
  are the metrics as the specification writes them; where the vectors are not empty and
  the total sum of squares is not zero these are the finite numbers
  \<open>1 - ss_res / ss_tot\<close>, \<open>sqrt (ss_res / n)\<close> and \<open>(\<Sum> |y_true - y_pred|) / n\<close>. The
  function is a function of the two vectors and returns a new value: the source has no
  statement that writes into an array.
\<close>

theorem evaluate_regression_metrics:
  assumes "length y_pred = length y_true"
  shows "evaluate_regression y_true y_pred =
           Inr [(''R2'', spec_R2 y_true y_pred), (''RMSE'', spec_RMSE y_true y_pred),
                (''MAE'', spec_MAE y_true y_pred)]
         \<and> (y_true \<noteq> [] \<and> spec_ss_tot y_true \<noteq> 0 \<longrightarrow>
              spec_R2 y_true y_pred = Fin (1 - spec_ss_res y_true y_pred / spec_ss_tot y_true)
            \<and> spec_RMSE y_true y_pred = Fin (sqrt (spec_ss_res y_true y_pred / real (length y_true)))
            \<and> spec_MAE y_true y_pred =
                Fin ((\<Sum>i<length y_true. \<bar>y_true ! i - y_pred ! i\<bar>) / real (length y_true)))"
proof -
  have "0 \<le> spec_ss_res y_true y_pred"
    by (simp add: spec_ss_res_def sum_nonneg)
  then have "0 \<le> spec_ss_res y_true y_pred / real (length y_true)"
    by simp
  then show ?thesis
    using evaluate_regression_eq [OF assms]
    by (simp add: spec_R2_def spec_RMSE_def spec_MAE_def fsub_def)
qed

theorem evaluate_regression_metrics_witness:
  "length [1, 2, 5 :: real] = length [1, 2, 3 :: real]
   \<and> evaluate_regression [1, 2, 3] [1, 2, 5] =
       Inr [(''R2'', Fin (- 1)), (''RMSE'', Fin (sqrt (4 / 3))), (''MAE'', Fin (2 / 3))]"
proof -
  have l: "length [1, 2, 5 :: real] = length [1, 2, 3 :: real]" by simp
  have tot: "spec_ss_tot [1, 2, 3] = 2"
    by (simp add: spec_ss_tot_def spec_mean_def lessThan_Suc numeral_3_eq_3 power2_eq_square)
  have res: "spec_ss_res [1, 2, 3] [1, 2, 5] = 4"
    by (simp add: spec_ss_res_def lessThan_Suc numeral_3_eq_3)
  have ne: "[1, 2, 3 :: real] \<noteq> [] \<and> spec_ss_tot [1, 2, 3] \<noteq> 0"
    by (simp add: tot)
  show ?thesis
    using evaluate_regression_metrics [OF l] ne
    by (simp add: tot res lessThan_Suc numeral_3_eq_3)
qed

subsection \<open>Perfect predictions\<close>




subsection \<open>\<^verbatim>\<open>one_hot_encode\<close>: auxiliary facts\<close>

lemma length_fill_one_hot [simp]: "length (fill_one_hot h oh col i us) = length h"
  by (induction us arbitrary: h i) simp_all

lemma fill_one_hot_other: "a \<noteq> oh \<Longrightarrow> fill_one_hot h oh col i us ! a = h ! a"
  by (induction us arbitrary: h i) simp_all

lemma view_simps [simp]: "dtype (view f A) = dtype A" "cells (view f A) = f (cells A)"
  by (simp_all add: view_def)

lemma nrows_set_column:
  "length v = nrows A \<Longrightarrow> nrows (set_column A i v) = nrows A"
  by (simp add: set_column_def nrows_def)

lemma nrows_fill_one_hot:
  "oh < length h \<Longrightarrow> nrows (cells (h ! oh)) = length col \<Longrightarrow>
   nrows (cells (fill_one_hot h oh col i us ! oh)) = length col"
  by (induction us arbitrary: h i) (simp_all add: nrows_set_column)

lemma nrows_cols [simp]:
  "nrows (cols_upto A i) = nrows A" "nrows (cols_from A i) = nrows A" "nrows (cols_from1 A) = nrows A"
  by (simp_all add: nrows_def cols_upto_def cols_from_def cols_from1_def)

lemma zeros_simps [simp]: "nrows (cells (zeros n k)) = n" "dtype (zeros n k) = Float64"
  by (simp_all add: nrows_def zeros_def)

lemma hstack3_nrows: "hstack3 fs A B C = Inr R \<Longrightarrow> nrows (cells R) = nrows (cells A)"
  by (auto simp: hstack3_def nrows_def Let_def split: if_splits)

lemma encode_index_unfold:
  "py_index (ncols (cells (h ! X))) index = Inr j \<Longrightarrow>
   np_unique (column (cells (h ! X)) j) = Inr us \<Longrightarrow>
   encode_index fs h X d Xt index =
     (let h2 = fill_one_hot (h @ [zeros (length (column (cells (h ! X)) j)) (length us)]) (length h)
                 (column (cells (h ! X)) j) 0 us;
          block = (if d then view cols_from1 (h2 ! length h) else h2 ! length h)
      in case hstack3 fs (view (\<lambda>a. cols_upto a index) (h2 ! Xt)) block
                (view (\<lambda>a. cols_from a (index + 1)) (h2 ! Xt)) of
           Inl e \<Rightarrow> (Inl e, h2)
         | Inr R \<Rightarrow> (Inr (length h2), h2 @ [R]))"
  by (simp add: encode_index_def alloc_def Let_def del: length_column split del: if_split
      cong: sum.case_cong)

lemma encode_index_frame:
  assumes "encode_index fs h X d Xt index = (res, h')"
  shows "length h \<le> length h' \<and> (\<forall>a<length h. h' ! a = h ! a)
         \<and> (\<forall>r. res = Inr r \<longrightarrow> length h \<le> r \<and> r < length h')"
  using assms
  by (auto simp: encode_index_def alloc_def Let_def nth_append fill_one_hot_other
      split: sum.splits prod.splits)

lemma encode_index_result:
  assumes "X < length h" and "Xt < length h"
    and "nrows (cells (h ! Xt)) = nrows (cells (h ! X))"
  shows "(encodable (cells (h ! X)) index \<longrightarrow>
            (\<exists>r. fst (encode_index fs h X d Xt index) = Inr r
               \<and> nrows (cells (snd (encode_index fs h X d Xt index) ! r)) = nrows (cells (h ! X))))
         \<and> (\<not> encodable (cells (h ! X)) index \<longrightarrow>
               (\<exists>e. fst (encode_index fs h X d Xt index) = Inl e))"
proof (cases "py_index (ncols (cells (h ! X))) index")
  case (Inl e)
  then show ?thesis by (simp add: encodable_def encode_index_def)
next
  case j: (Inr j)
  show ?thesis
  proof (cases "np_unique (column (cells (h ! X)) j)")
    case (Inl e)
    then show ?thesis by (simp add: encodable_def encode_index_def j)
  next
    case (Inr us)
    define col where "col = column (cells (h ! X)) j"
    define h1 where "h1 = h @ [zeros (length col) (length us)]"
    define h2 where "h2 = fill_one_hot h1 (length h) col 0 us"
    define block where "block = (if d then view cols_from1 (h2 ! length h) else h2 ! length h)"
    have lc: "length col = nrows (cells (h ! X))" by (simp add: col_def)
    have "nrows (cells (h2 ! length h)) = length col"
      unfolding h2_def by (rule nrows_fill_one_hot) (simp_all add: h1_def)
    then have nb: "nrows (cells block) = nrows (cells (h ! X))" by (simp add: block_def lc)
    have xt: "h2 ! Xt = h ! Xt"
      using assms(2) by (simp add: h2_def h1_def fill_one_hot_other nth_append)
    obtain R where R: "hstack3 fs (view (\<lambda>a. cols_upto a index) (h2 ! Xt)) block
                         (view (\<lambda>a. cols_from a (index + 1)) (h2 ! Xt)) = Inr R"
      by (simp add: hstack3_def xt nb assms(3) Let_def)
    have nR: "nrows (cells R) = nrows (cells (h ! X))"
      using hstack3_nrows [OF R] by (simp add: xt assms(3))
    have "encode_index fs h X d Xt index =
            (case hstack3 fs (view (\<lambda>a. cols_upto a index) (h2 ! Xt)) block
                    (view (\<lambda>a. cols_from a (index + 1)) (h2 ! Xt)) of
               Inl e \<Rightarrow> (Inl e, h2)
             | Inr R \<Rightarrow> (Inr (length h2), h2 @ [R]))"
      unfolding encode_index_unfold [OF j Inr] Let_def block_def h2_def h1_def col_def
      by (rule refl)
    then have "encode_index fs h X d Xt index = (Inr (length h2), h2 @ [R])"
      by (simp only: R sum.case)
    then show ?thesis using nR by (simp add: encodable_def j Inr)
  qed
qed

lemma encode_loop_frame:
  "encode_loop fs h X d Xt idxs = (res, h') \<Longrightarrow>
   length h \<le> length h' \<and> (\<forall>a<length h. h' ! a = h ! a)
   \<and> (\<forall>r. res = Inr r \<longrightarrow> r = Xt \<or> (length h \<le> r \<and> r < length h'))"
proof (induction idxs arbitrary: h Xt)
  case Nil
  then show ?case by auto
next
  case (Cons i idxs)
  obtain r1 h1 where e: "encode_index fs h X d Xt i = (r1, h1)"
    by (cases "encode_index fs h X d Xt i")
  note f = encode_index_frame [OF e]
  show ?case
  proof (cases r1)
    case (Inl err)
    then show ?thesis using Cons.prems e f by auto
  next
    case (Inr x)
    then have l: "encode_loop fs h1 X d x idxs = (res, h')"
      using Cons.prems e by simp
    show ?thesis
      using Cons.IH [OF l] f Inr by auto
  qed
qed

lemma encode_loop_result:
  "X < length h \<Longrightarrow> Xt < length h \<Longrightarrow> nrows (cells (h ! Xt)) = nrows (cells (h ! X)) \<Longrightarrow>
   (\<exists>r. fst (encode_loop fs h X d Xt idxs) = Inr r) = list_all (encodable (cells (h ! X))) idxs"
proof (induction idxs arbitrary: h Xt)
  case Nil
  then show ?case by simp
next
  case (Cons i idxs)
  obtain r1 h1 where e: "encode_index fs h X d Xt i = (r1, h1)"
    by (cases "encode_index fs h X d Xt i")
  note f = encode_index_frame [OF e]
  note g = encode_index_result [OF Cons.prems, of i fs d]
  show ?case
  proof (cases "encodable (cells (h ! X)) i")
    case False
    then show ?thesis using g e by auto
  next
    case True
    then obtain r where r: "r1 = Inr r" and n: "nrows (cells (h1 ! r)) = nrows (cells (h ! X))"
      using g e by auto
    have x: "X < length h1" "r < length h1" "h1 ! X = h ! X"
      using f r Cons.prems(1) by auto
    have "(\<exists>r'. fst (encode_loop fs h1 X d r idxs) = Inr r')
            = list_all (encodable (cells (h1 ! X))) idxs"
      by (rule Cons.IH) (simp_all add: x n)
    then show ?thesis using True e r x by simp
  qed
qed

lemma sum_indicators:
  "distinct us \<Longrightarrow> sum_list (indicators us c) = (if c \<in> set us then 1 else 0)"
  by (induction us) (auto simp: indicators_def)

lemma set_indicators: "set (indicators us c) \<subseteq> {0, 1}"
  by (auto simp: indicators_def)

lemma np_unique_distinct:
  assumes "np_unique col = Inr us"
  shows "distinct us \<and> set us = set col"
proof (cases "list_all is_Num col")
  case True
  then have u: "us = map Num (sort (remdups (map the_num col)))"
    using assms by (simp add: np_unique_def)
  have "Num ` the_num ` set col = set col"
    using True by (force simp: list_all_iff image_iff)
  then show ?thesis
    by (simp add: u distinct_map inj_on_def)
next
  case False
  then have s: "list_all is_Str col" and u: "us = map Str (sort (remdups (map the_str col)))"
    using assms by (auto simp: np_unique_def split: if_splits)
  have "Str ` the_str ` set col = set col"
    using s by (force simp: list_all_iff image_iff)
  then show ?thesis
    by (simp add: u distinct_map inj_on_def)
qed

lemma sorted_hd_le: "sorted xs \<Longrightarrow> x \<in> set xs \<Longrightarrow> hd xs \<le> x"
  by (cases xs) auto

lemma np_unique_ascending:
  assumes "np_unique col = Inr us" and "u \<in> set us"
  shows "cell_le (hd us) u"
proof (cases "list_all is_Num col")
  case True
  then have e: "us = map Num (sort (remdups (map the_num col)))"
    using assms by (simp add: np_unique_def)
  then obtain x where x: "u = Num x" "x \<in> set (sort (remdups (map the_num col)))"
    using assms(2) by auto
  then have "sort (remdups (map the_num col)) \<noteq> []" by (metis empty_iff empty_set)
  then have "hd us = Num (hd (sort (remdups (map the_num col))))"
    by (simp add: e hd_map)
  then show ?thesis using x sorted_hd_le [OF sorted_sort, of x "remdups (map the_num col)"]
    by simp
next
  case False
  then have e: "us = map Str (sort (remdups (map the_str col)))"
    using assms by (auto simp: np_unique_def split: if_splits)
  then obtain x where x: "u = Str x" "x \<in> set (sort (remdups (map the_str col)))"
    using assms(2) by auto
  then have "sort (remdups (map the_str col)) \<noteq> []" by (metis empty_iff empty_set)
  then have "hd us = Str (hd (sort (remdups (map the_str col))))"
    by (simp add: e hd_map)
  then show ?thesis using x sorted_hd_le [OF sorted_sort, of x "remdups (map the_str col)"]
    by simp
qed

lemma concat_singletons: "concat (map (\<lambda>k. [f k]) ks) = map f ks"
  by (induction ks) simp_all

lemma map_nth_upt: "m \<le> length row \<Longrightarrow> map (\<lambda>k. row ! k) [a..<m] = drop a (take m row)"
  by (intro nth_equalityI) (auto simp: min_def)

lemma map2_map_left: "map2 f (map g xs) xs = map (\<lambda>x. f (g x) x) xs"
  by (induction xs) simp_all

lemma fill_one_hot_rows:
  "oh < length h \<Longrightarrow> h ! oh = NP t (Arr2 k rs) \<Longrightarrow> length rs = length col \<Longrightarrow>
   \<forall>r\<in>set rs. length r = k \<Longrightarrow> i + length us \<le> k \<Longrightarrow>
   fill_one_hot h oh col i us ! oh =
     NP t (Arr2 k (map2 (\<lambda>r c. take i r @ map Num (indicators us c) @ drop (i + length us) r) rs col))"
proof (induction us arbitrary: h i rs)
  case Nil
  have "map2 (\<lambda>r c. r) rs col = rs"
    using Nil.prems(3) by (intro nth_equalityI) simp_all
  then show ?case
    using Nil.prems by (simp add: indicators_def)
next
  case (Cons u us)
  define v where "v = map (\<lambda>c. Num (if c = u then 1 else 0)) col"
  define rs' where "rs' = map2 (\<lambda>r x. r[i := x]) rs v"
  define h' where "h' = h[oh := view (\<lambda>a. set_column a i v) (h ! oh)]"
  have 1: "oh < length h'" using Cons.prems(1) by (simp add: h'_def)
  have 2: "h' ! oh = NP t (Arr2 k rs')"
    using Cons.prems(1,2) by (simp add: h'_def set_column_def rs'_def view_def)
  have 3: "length rs' = length col"
    using Cons.prems(3) by (simp add: rs'_def v_def)
  have 4: "\<forall>r\<in>set rs'. length r = k"
    using Cons.prems(4) by (auto simp: rs'_def set_zip)
  have 5: "Suc i + length us \<le> k" using Cons.prems(5) by simp
  have "fill_one_hot h oh col i (u # us) ! oh = fill_one_hot h' oh col (Suc i) us ! oh"
    by (simp add: h'_def v_def)
  also have "\<dots> = NP t (Arr2 k (map2 (\<lambda>r c. take (Suc i) r @ map Num (indicators us c)
                                     @ drop (Suc i + length us) r) rs' col))"
    by (rule Cons.IH [OF 1 2 3 4 5])
  also have "map2 (\<lambda>r c. take (Suc i) r @ map Num (indicators us c) @ drop (Suc i + length us) r) rs' col
        = map2 (\<lambda>r c. take i r @ map Num (indicators (u # us) c) @ drop (i + length (u # us)) r) rs col"
  proof (rule nth_equalityI)
    show "length (map2 (\<lambda>r c. take (Suc i) r @ map Num (indicators us c)
                     @ drop (Suc i + length us) r) rs' col)
        = length (map2 (\<lambda>r c. take i r @ map Num (indicators (u # us) c)
                     @ drop (i + length (u # us)) r) rs col)"
      using 3 Cons.prems(3) by simp
  next
    fix t
    assume "t < length (map2 (\<lambda>r c. take (Suc i) r @ map Num (indicators us c)
                     @ drop (Suc i + length us) r) rs' col)"
    then have t: "t < length col" using 3 by simp
    then have tr: "t < length rs" using Cons.prems(3) by simp
    have li: "i < length (rs ! t)"
      using Cons.prems(4,5) tr by (simp add: nth_mem)
    have r': "rs' ! t = (rs ! t)[i := Num (if col ! t = u then 1 else 0)]"
      using t tr by (simp add: rs'_def v_def)
    show "map2 (\<lambda>r c. take (Suc i) r @ map Num (indicators us c) @ drop (Suc i + length us) r) rs' col ! t
        = map2 (\<lambda>r c. take i r @ map Num (indicators (u # us) c) @ drop (i + length (u # us)) r) rs col ! t"
      using t tr 3 li
      by (simp add: r' take_Suc_conv_app_nth indicators_def)
  qed
  finally show ?case .
qed

lemma zeros_filled:
  "fill_one_hot (h @ [zeros (length col) (length us)]) (length h) col 0 us ! length h
     = NP Float64 (Arr2 (length us) (map (\<lambda>c. map Num (indicators us c)) col))"
proof -
  have "fill_one_hot (h @ [zeros (length col) (length us)]) (length h) col 0 us ! length h
     = NP Float64 (Arr2 (length us)
         (map2 (\<lambda>r c. take 0 r @ map Num (indicators us c) @ drop (0 + length us) r)
            (replicate (length col) (replicate (length us) (Num 0))) col))"
    by (rule fill_one_hot_rows) (simp_all add: zeros_def)
  also have "map2 (\<lambda>r c. take 0 r @ map Num (indicators us c) @ drop (0 + length us) r)
          (replicate (length col) (replicate (length us) (Num 0))) col
        = map (\<lambda>c. map Num (indicators us c)) col"
    by (rule nth_equalityI) simp_all
  finally show ?thesis .
qed

lemma cast_other: "t \<noteq> Unicode \<Longrightarrow> cast fs t c = c"
  by (cases t; cases c) simp_all

lemma cast_id: "t \<noteq> Unicode \<Longrightarrow> cast fs t = (\<lambda>c. c)"
  by (rule ext) (simp add: cast_other)

lemma promote_float: "t \<noteq> Unicode \<Longrightarrow> promote t (promote Float64 t) = t"
  by (cases t) (simp_all add: promote_def)

lemma encode_index_step:
  assumes Xt: "Xt < length h" and T: "h ! Xt = NP t (Arr2 w rt)" and tu: "t \<noteq> Unicode"
    and lt: "length rt = nrows (cells (h ! X))"
    and lo: "0 \<le> index" and hi: "index < int (ncols (cells (h ! X)))" and iw: "nat index < w"
    and u: "np_unique (column (cells (h ! X)) (nat index)) = Inr us"
  shows "\<exists>h'. encode_index fs h X d Xt index = (Inr (Suc (length h)), h')
     \<and> length h' = Suc (Suc (length h))
     \<and> h' ! Suc (length h) =
        NP t (Arr2 (nat index + (if d then length us - 1 else length us) + (w - Suc (nat index)))
          (map2 (\<lambda>t row. take (nat index) t
                        @ map Num (encoded us d (row ! nat index))
                        @ drop (Suc (nat index)) t) rt (rows (cells (h ! X)))))"
proof -
  define j where "j = nat index"
  define A where "A = cells (h ! X)"
  define col where "col = column A j"
  define h2 where "h2 = fill_one_hot (h @ [zeros (length col) (length us)]) (length h) col 0 us"
  define block where "block = (if d then view cols_from1 (h2 ! length h) else h2 ! length h)"
  define R where "R = NP t (Arr2 (j + (if d then length us - 1 else length us) + (w - Suc j))
          (map2 (\<lambda>t row. take j t @ map Num (encoded us d (row ! j)) @ drop (Suc j) t) rt (rows A)))"
  have pj: "py_index (ncols (cells (h ! X))) index = Inr j"
    using lo hi by (simp add: py_index_def j_def)
  have uj: "np_unique (column (cells (h ! X)) j) = Inr us"
    using u by (simp add: j_def)
  have oh: "h2 ! length h = NP Float64 (Arr2 (length us) (map (\<lambda>c. map Num (indicators us c)) col))"
    unfolding h2_def by (rule zeros_filled)
  have xt: "h2 ! Xt = NP t (Arr2 w rt)"
    using Xt T by (simp add: h2_def fill_one_hot_other nth_append)
  have b: "block = NP Float64 (Arr2 (if d then length us - 1 else length us)
                     (map (\<lambda>row. map Num (encoded us d (row ! j))) (rows A)))"
    by (simp add: block_def oh view_def cols_from1_def encoded_def col_def column_def map_tl comp_def)
  have bu: "py_bound w index = j"
    using lo iw by (simp add: py_bound_def j_def)
  have bf: "py_bound w (index + 1) = Suc j"
    using lo iw by (simp add: py_bound_def j_def)
  have lr: "length rt = length (rows A)" using lt by (simp add: A_def nrows_def)
  have rows: "map2 (@) (map (take j) rt)
                (map2 (@) (map (\<lambda>row. map Num (encoded us d (row ! j))) (rows A)) (map (drop (Suc j)) rt))
              = map2 (\<lambda>t row. take j t @ map Num (encoded us d (row ! j)) @ drop (Suc j) t) rt (rows A)"
    using lr by (intro nth_equalityI) simp_all
  have hs: "hstack3 fs (view (\<lambda>a. cols_upto a index) (h2 ! Xt)) block
              (view (\<lambda>a. cols_from a (index + 1)) (h2 ! Xt)) = Inr R"
    unfolding R_def rows [symmetric]
    using lr tu
    by (simp add: xt hstack3_def b view_def cols_upto_def cols_from_def bu bf nrows_def Let_def
        promote_float cast_id)
  have "encode_index fs h X d Xt index = (Inr (length h2), h2 @ [R])"
    unfolding encode_index_unfold [OF pj uj] Let_def
    unfolding A_def [symmetric] col_def [symmetric] h2_def [symmetric] block_def [symmetric]
    by (simp only: hs sum.case)
  moreover have "length h2 = Suc (length h)"
    by (simp add: h2_def)
  ultimately show ?thesis
    unfolding R_def j_def A_def by (simp add: nth_append)
qed

lemma encodable_unique:
  "encodable A i \<Longrightarrow> 0 \<le> i \<Longrightarrow> np_unique (column A (nat i)) = Inr (uniq A (nat i))"
  by (auto simp: encodable_def py_index_def uniq_def split: sum.splits if_splits)

lemma encode_loop_rows:
  assumes r: "rect A"
    and tu: "t \<noteq> Unicode"
  shows "Xt < length h \<Longrightarrow> X < length h \<Longrightarrow> cells (h ! X) = A \<Longrightarrow>
     h ! Xt = NP t (Arr2 w (map (\<lambda>row. take m row @ suf row) (rows A))) \<Longrightarrow> m \<le> w \<Longrightarrow> m \<le> ncols A \<Longrightarrow>
     sorted (rev idxs) \<Longrightarrow> distinct idxs \<Longrightarrow>
     \<forall>i\<in>set idxs. 0 \<le> i \<and> i < int m \<and> encodable A i \<Longrightarrow>
     \<exists>r h' w'. encode_loop fs h X d Xt idxs = (Inr r, h')
        \<and> h' ! r = NP t (Arr2 w' (map (\<lambda>row. concat (map (\<lambda>j. if int j \<in> set idxs
                        then map Num (encoded (uniq A j) d (row ! j))
                        else [row ! j]) [0..<m]) @ suf row) (rows A)))"
proof (induction idxs arbitrary: h Xt w m suf)
  case Nil
  have "map (\<lambda>row. concat (map (\<lambda>j. [row ! j]) [0..<m]) @ suf row) (rows A)
        = map (\<lambda>row. take m row @ suf row) (rows A)"
  proof (rule map_cong [OF refl])
    fix row assume "row \<in> set (rows A)"
    then have "length row = ncols A" using r by (simp add: rect_def list_all_iff)
    then show "concat (map (\<lambda>j. [row ! j]) [0..<m]) @ suf row = take m row @ suf row"
      using Nil.prems(6) by (simp add: concat_singletons map_nth_upt)
  qed
  then show ?case using Nil.prems(4) by simp
next
  case (Cons i rest)
  define j where "j = nat i"
  define us where "us = uniq A j"
  define rt where "rt = map (\<lambda>row. take m row @ suf row) (rows A)"
  define suf1 where "suf1 = (\<lambda>row. map Num (encoded us d (row ! j)) @ drop (Suc j) (take m row) @ suf row)"
  have i0: "0 \<le> i" and im: "i < int m" and ie: "encodable A i"
    using Cons.prems(9) by auto
  have ij: "i = int j" using i0 by (simp add: j_def)
  have jm: "j < m" using i0 im by (simp add: j_def)
  have u: "np_unique (column (cells (h ! X)) (nat i)) = Inr us"
    using encodable_unique [OF ie i0] by (simp add: us_def j_def Cons.prems(3))
  have T: "h ! Xt = NP t (Arr2 w rt)" using Cons.prems(4) by (simp add: rt_def)
  have lt: "length rt = nrows (cells (h ! X))" by (simp add: rt_def nrows_def Cons.prems(3))
  have hi: "i < int (ncols (cells (h ! X)))" using im Cons.prems(6) by (simp add: Cons.prems(3))
  have iw: "nat i < w" using jm Cons.prems(5) by (simp add: j_def)
  obtain h1 where e: "encode_index fs h X d Xt i = (Inr (Suc (length h)), h1)"
    and l1: "length h1 = Suc (Suc (length h))"
    and x1: "h1 ! Suc (length h) =
        NP t (Arr2 (nat i + (if d then length us - 1 else length us) + (w - Suc (nat i)))
          (map2 (\<lambda>t row. take (nat i) t @ map Num (encoded us d (row ! nat i))
                        @ drop (Suc (nat i)) t) rt (rows (cells (h ! X)))))"
    using encode_index_step [OF Cons.prems(1) T tu lt i0 hi iw u, of fs d] by blast
  define w1 where "w1 = j + (if d then length us - 1 else length us) + (w - Suc j)"
  have rows1: "map2 (\<lambda>t row. take j t @ map Num (encoded us d (row ! j)) @ drop (Suc j) t) rt (rows A)
             = map (\<lambda>row. take j row @ suf1 row) (rows A)"
    unfolding rt_def map2_map_left
  proof (rule map_cong [OF refl])
    fix row assume "row \<in> set (rows A)"
    then have "length row = ncols A" using r by (simp add: rect_def list_all_iff)
    then have lm: "length (take m row) = m" using Cons.prems(6) by simp
    show "take j (take m row @ suf row) @ map Num (encoded us d (row ! j))
            @ drop (Suc j) (take m row @ suf row) = take j row @ suf1 row"
      using jm lm by (simp add: suf1_def min_def)
  qed
  have X1: "h1 ! Suc (length h) = NP t (Arr2 w1 (map (\<lambda>row. take j row @ suf1 row) (rows A)))"
    using x1 by (simp add: j_def [symmetric] Cons.prems(3) rows1 w1_def)
  note f = encode_index_frame [OF e]
  have a1: "Suc (length h) < length h1" using l1 by simp
  have a2: "X < length h1" using Cons.prems(2) l1 by simp
  have a3: "cells (h1 ! X) = A" using f Cons.prems(2,3) by simp
  have a5: "j \<le> w1" by (simp add: w1_def)
  have a6: "j \<le> ncols A" using jm Cons.prems(6) by simp
  have srt: "sorted (rev rest)" using Cons.prems(7) by (simp add: sorted_append)
  have dis: "distinct rest" using Cons.prems(8) by simp
  have below: "\<forall>k\<in>set rest. k < i"
    using Cons.prems(7,8) by (auto simp: sorted_append less_le)
  have a9: "\<forall>k\<in>set rest. 0 \<le> k \<and> k < int j \<and> encodable A k"
    using Cons.prems(9) below ij by auto
  obtain r h' w' where l: "encode_loop fs h1 X d (Suc (length h)) rest = (Inr r, h')"
    and res: "h' ! r = NP t (Arr2 w' (map (\<lambda>row. concat (map (\<lambda>k. if int k \<in> set rest
                        then map Num (encoded (uniq A k) d (row ! k))
                        else [row ! k]) [0..<j]) @ suf1 row) (rows A)))"
    using Cons.IH [OF a1 a2 a3 X1 a5 a6 srt dis a9] by blast
  have "map (\<lambda>row. concat (map (\<lambda>k. if int k \<in> set rest
                        then map Num (encoded (uniq A k) d (row ! k))
                        else [row ! k]) [0..<j]) @ suf1 row) (rows A)
      = map (\<lambda>row. concat (map (\<lambda>k. if int k \<in> set (i # rest)
                        then map Num (encoded (uniq A k) d (row ! k))
                        else [row ! k]) [0..<m]) @ suf row) (rows A)"
  proof (rule map_cong [OF refl])
    fix row assume "row \<in> set (rows A)"
    then have lr: "length row = ncols A" using r by (simp add: rect_def list_all_iff)
    let ?e = "\<lambda>S k. if int k \<in> S then map Num (encoded (uniq A k) d (row ! k)) else [row ! k]"
    have sp: "[0..<m] = [0..<j] @ j # [Suc j..<m]"
    proof -
      have "[0..<j + (m - j)] = [0..<j] @ [j..<j + (m - j)]"
        by (rule upt_add_eq_append) simp
      then have "[0..<m] = [0..<j] @ [j..<m]"
        using jm by simp
      then show ?thesis using jm by (simp add: upt_conv_Cons)
    qed
    have p1: "map (?e (set (i # rest))) [0..<j] = map (?e (set rest)) [0..<j]"
      using ij by (intro map_cong [OF refl]) auto
    have p2: "?e (set (i # rest)) j = map Num (encoded us d (row ! j))"
      using ij by (simp add: us_def)
    have p3: "map (?e (set (i # rest))) [Suc j..<m] = map (\<lambda>k. [row ! k]) [Suc j..<m]"
      using ij below by (intro map_cong [OF refl]) auto
    have p4: "concat (map (\<lambda>k. [row ! k]) [Suc j..<m]) = drop (Suc j) (take m row)"
      using lr Cons.prems(6) by (simp add: concat_singletons map_nth_upt)
    show "concat (map (?e (set rest)) [0..<j]) @ suf1 row
        = concat (map (?e (set (i # rest))) [0..<m]) @ suf row"
      unfolding sp by (simp only: map_append list.map concat_append concat.simps p1 p2 p3 p4
          suf1_def append_assoc)
  qed
  then have "h' ! r = NP t (Arr2 w' (map (\<lambda>row. concat (map (\<lambda>k. if int k \<in> set (i # rest)
                        then map Num (encoded (uniq A k) d (row ! k))
                        else [row ! k]) [0..<m]) @ suf row) (rows A)))"
    using res by simp
  moreover have "encode_loop fs h X d Xt (i # rest) = (Inr r, h')"
    using e l by simp
  ultimately show ?case by blast
qed

lemma indicator_block:
  assumes u: "np_unique (column A j) = Inr us" and r: "row \<in> set (rows A)"
  shows "length (encoded us drop_first (row ! j)) = (if drop_first then length us - 1 else length us)
       \<and> set (encoded us drop_first (row ! j)) \<subseteq> {0, 1}
       \<and> sum_list (encoded us drop_first (row ! j)) = (if drop_first \<and> row ! j = hd us then 0 else 1)"
proof -
  note d = np_unique_distinct [OF u]
  define c0 where "c0 = row ! j"
  have "c0 \<in> set (column A j)"
    using r by (simp add: column_def c0_def)
  then have m: "c0 \<in> set us" using d by simp
  then obtain u0 us' where c: "us = u0 # us'" by (cases us) auto
  have d': "distinct us'" "u0 \<notin> set us'" using d c by auto
  have l: "length (indicators us c0) = length us" "length (indicators us' c0) = length us'"
    by (simp_all add: indicators_def)
  have s1: "sum_list (indicators us c0) = 1"
    using d m by (simp add: sum_indicators)
  have t: "tl (indicators us c0) = indicators us' c0"
    by (simp add: c indicators_def)
  have s2: "sum_list (indicators us' c0) = (if c0 = u0 then 0 else 1)"
    using d' m c by (auto simp: sum_indicators)
  have "length (encoded us drop_first c0) = (if drop_first then length us - 1 else length us)
       \<and> set (encoded us drop_first c0) \<subseteq> {0, 1}
       \<and> sum_list (encoded us drop_first c0) = (if drop_first \<and> c0 = hd us then 0 else 1)"
  proof (cases drop_first)
    case True
    then have e: "encoded us drop_first c0 = indicators us' c0"
      by (simp add: encoded_def t)
    show ?thesis
      unfolding e using True set_indicators [of us' c0] by (simp add: l s2 c)
  next
    case False
    then have e: "encoded us drop_first c0 = indicators us c0"
      by (simp add: encoded_def)
    show ?thesis
      unfolding e using False set_indicators [of us c0] by (simp add: l s1)
  qed
  then show ?thesis unfolding c0_def .
qed

lemma one_hot_encode_rows:
  assumes X: "X < length h" and r: "rect (cells (h ! X))" and tu: "dtype (h ! X) \<noteq> Unicode"
    and dis: "distinct categorical_indices"
    and ok: "\<forall>i\<in>set categorical_indices.
               0 \<le> i \<and> i < int (ncols (cells (h ! X))) \<and> encodable (cells (h ! X)) i"
  shows "\<exists>r h'. one_hot_encode fs h X categorical_indices drop_first = (Inr r, h')
     \<and> dtype (h' ! r) = dtype (h ! X)
     \<and> rows (cells (h' ! r))
         = map (encode_row (cells (h ! X)) categorical_indices drop_first) (rows (cells (h ! X)))"
proof -
  define A where "A = cells (h ! X)"
  define t where "t = dtype (h ! X)"
  define h1 where "h1 = h @ [h ! X]"
  have rw: "map (\<lambda>row. take (ncols A) row @ []) (rows A) = rows A"
    using r by (intro map_idI) (simp add: A_def rect_def list_all_iff)
  have a1: "length h < length h1" and a2: "X < length h1" and a3: "cells (h1 ! X) = A"
    using X by (simp_all add: h1_def A_def nth_append)
  have "h ! X = NP t (Arr2 (ncols A) (rows A))"
    by (cases "h ! X", cases "cells (h ! X)") (simp add: t_def A_def)
  then have a4: "h1 ! length h = NP t (Arr2 (ncols A) (map (\<lambda>row. take (ncols A) row @ []) (rows A)))"
    unfolding rw by (simp add: h1_def)
  have a7: "sorted (rev (rev (sort categorical_indices)))" by simp
  have a8: "distinct (rev (sort categorical_indices))" using dis by simp
  have a9: "\<forall>i\<in>set (rev (sort categorical_indices)). 0 \<le> i \<and> i < int (ncols A) \<and> encodable A i"
    using ok by (simp add: A_def)
  obtain r' h' w' where l:
    "encode_loop fs h1 X drop_first (length h) (rev (sort categorical_indices)) = (Inr r', h')"
    and res: "h' ! r' = NP t (Arr2 w' (map (\<lambda>row. concat (map (\<lambda>j. if int j \<in> set (rev (sort categorical_indices))
                        then map Num (encoded (uniq A j) drop_first (row ! j))
                        else [row ! j]) [0..<ncols A]) @ []) (rows A)))"
    using encode_loop_rows [OF r [folded A_def] tu [folded t_def] a1 a2 a3 a4 le_refl le_refl a7 a8 a9,
        of fs drop_first]
    by blast
  have "one_hot_encode fs h X categorical_indices drop_first = (Inr r', h')"
    by (simp add: one_hot_encode_def alloc_def h1_def [symmetric] l)
  moreover have "rows (cells (h' ! r')) = map (encode_row A categorical_indices drop_first) (rows A)"
    by (simp add: res encode_row_def)
  moreover have "dtype (h' ! r') = t" by (simp add: res)
  ultimately show ?thesis unfolding A_def t_def by blast
qed

subsection \<open>\<^verbatim>\<open>one_hot_encode\<close>: the indicator columns\<close>

text \<open>
  Claim C8, as amended. Let \<open>X\<close> be a rectangular array of numbers or of Python objects,
  not a string array, and let the index list hold different valid column indices whose
  columns have values that can be sorted (finite numbers or strings; not-a-number is not
  an entry of the model). Then \<^verbatim>\<open>one_hot_encode\<close> returns an array of the element type
  of \<open>X\<close> whose rows are the rows of \<open>X\<close> with the entry of every listed column
  replaced, in place, by its indicator values, as numbers. For a listed column with the
  \<open>k\<close> distinct values \<open>us\<close> in ascending order: every indicator value is \<open>0\<close> or
  \<open>1\<close>; without \<^verbatim>\<open>drop_first\<close> there are \<open>k\<close> of them in each row and their sum is
  \<open>1\<close>; with \<^verbatim>\<open>drop_first\<close> there are \<open>k - 1\<close> and their sum is \<open>0\<close> when the entry
  of the row is the first, that is the smallest, of the values, and \<open>1\<close> otherwise.
\<close>

theorem one_hot_encode_indicator_sums:
  assumes "X < length h" and "rect (cells (h ! X))" and "dtype (h ! X) \<noteq> Unicode"
    and "distinct categorical_indices"
    and "\<forall>i\<in>set categorical_indices.
           0 \<le> i \<and> i < int (ncols (cells (h ! X))) \<and> encodable (cells (h ! X)) i"
  shows "(\<exists>r h'. one_hot_encode float_str h X categorical_indices drop_first = (Inr r, h')
            \<and> dtype (h' ! r) = dtype (h ! X)
            \<and> rows (cells (h' ! r))
                = map (encode_row (cells (h ! X)) categorical_indices drop_first)
                    (rows (cells (h ! X))))
     \<and> (\<forall>i\<in>set categorical_indices. \<forall>row\<in>set (rows (cells (h ! X))).
           length (encoded (uniq (cells (h ! X)) (nat i)) drop_first (row ! nat i))
             = (if drop_first then length (uniq (cells (h ! X)) (nat i)) - 1
                else length (uniq (cells (h ! X)) (nat i)))
         \<and> set (encoded (uniq (cells (h ! X)) (nat i)) drop_first (row ! nat i)) \<subseteq> {0, 1}
         \<and> sum_list (encoded (uniq (cells (h ! X)) (nat i)) drop_first (row ! nat i))
             = (if drop_first \<and> row ! nat i = hd (uniq (cells (h ! X)) (nat i)) then 0 else 1))
     \<and> (\<forall>i\<in>set categorical_indices.
           distinct (uniq (cells (h ! X)) (nat i))
         \<and> set (uniq (cells (h ! X)) (nat i)) = set (column (cells (h ! X)) (nat i))
         \<and> (\<forall>u\<in>set (uniq (cells (h ! X)) (nat i)). cell_le (hd (uniq (cells (h ! X)) (nat i))) u))"
proof -
  define A where "A = cells (h ! X)"
  have u: "\<And>i. i \<in> set categorical_indices \<Longrightarrow>
             np_unique (column A (nat i)) = Inr (uniq A (nat i))"
    using assms(5) encodable_unique unfolding A_def by blast
  have 1: "\<exists>r h'. one_hot_encode float_str h X categorical_indices drop_first = (Inr r, h')
            \<and> dtype (h' ! r) = dtype (h ! X)
            \<and> rows (cells (h' ! r)) = map (encode_row A categorical_indices drop_first) (rows A)"
    unfolding A_def by (rule one_hot_encode_rows [OF assms])
  have 2: "\<forall>i\<in>set categorical_indices. \<forall>row\<in>set (rows A).
           length (encoded (uniq A (nat i)) drop_first (row ! nat i))
             = (if drop_first then length (uniq A (nat i)) - 1
                else length (uniq A (nat i)))
         \<and> set (encoded (uniq A (nat i)) drop_first (row ! nat i)) \<subseteq> {0, 1}
         \<and> sum_list (encoded (uniq A (nat i)) drop_first (row ! nat i))
             = (if drop_first \<and> row ! nat i = hd (uniq A (nat i)) then 0 else 1)"
  proof (intro ballI)
    fix i row
    assume "i \<in> set categorical_indices" and "row \<in> set (rows A)"
    then show "length (encoded (uniq A (nat i)) drop_first (row ! nat i))
             = (if drop_first then length (uniq A (nat i)) - 1
                else length (uniq A (nat i)))
         \<and> set (encoded (uniq A (nat i)) drop_first (row ! nat i)) \<subseteq> {0, 1}
         \<and> sum_list (encoded (uniq A (nat i)) drop_first (row ! nat i))
             = (if drop_first \<and> row ! nat i = hd (uniq A (nat i)) then 0 else 1)"
      using indicator_block [OF u] by simp
  qed
  have 3: "\<forall>i\<in>set categorical_indices.
           distinct (uniq A (nat i))
         \<and> set (uniq A (nat i)) = set (column A (nat i))
         \<and> (\<forall>u\<in>set (uniq A (nat i)). cell_le (hd (uniq A (nat i))) u)"
  proof (intro ballI conjI)
    fix i assume i: "i \<in> set categorical_indices"
    show "distinct (uniq A (nat i))"
      using np_unique_distinct [OF u [OF i]] by simp
    show "set (uniq A (nat i)) = set (column A (nat i))"
      using np_unique_distinct [OF u [OF i]] by simp
    fix v assume "v \<in> set (uniq A (nat i))"
    then show "cell_le (hd (uniq A (nat i))) v"
      by (rule np_unique_ascending [OF u [OF i]])
  qed
  show ?thesis using 1 2 3 unfolding A_def by (intro conjI)
qed

theorem one_hot_encode_indicator_sums_witness:
  "0 < length [NP Object (Arr2 3 [[Str ''a'', Num 1, Num 7], [Str ''b'', Num 2, Num 9],
                                    [Str ''a'', Num 3, Num 7]])]
   \<and> rect (Arr2 3 [[Str ''a'', Num 1, Num 7], [Str ''b'', Num 2, Num 9], [Str ''a'', Num 3, Num 7]])
   \<and> Object \<noteq> Unicode
   \<and> distinct [0, 2 :: int]
   \<and> list_all (encodable (Arr2 3 [[Str ''a'', Num 1, Num 7], [Str ''b'', Num 2, Num 9],
                                     [Str ''a'', Num 3, Num 7]])) [0, 2]
   \<and> (\<exists>r h'. one_hot_encode (\<lambda>r. if r = 0 then ''0.0'' else ''1.0'')
                 [NP Object (Arr2 3 [[Str ''a'', Num 1, Num 7], [Str ''b'', Num 2, Num 9],
                                     [Str ''a'', Num 3, Num 7]])]
                  0 [0, 2] True = (Inr r, h')
          \<and> dtype (h' ! r) = Object
          \<and> rows (cells (h' ! r))
              = [[Num 0, Num 1, Num 0], [Num 1, Num 2, Num 1], [Num 0, Num 3, Num 0]])"
proof -
  define A where "A = Arr2 3 [[Str ''a'', Num 1, Num 7], [Str ''b'', Num 2, Num 9], [Str ''a'', Num 3, Num 7]]"
  define fs :: "real \<Rightarrow> string" where "fs = (\<lambda>r. if r = 0 then ''0.0'' else ''1.0'')"
  have h1: "0 < length [NP Object A]" by simp
  have h2: "rect (cells ([NP Object A] ! 0))" by (simp add: A_def rect_def)
  have h3: "dtype ([NP Object A] ! 0) \<noteq> Unicode" by simp
  have h4: "distinct [0, 2 :: int]" by simp
  have e: "list_all (encodable A) [0, 2]"
    unfolding A_def by code_simp
  have h5: "\<forall>i\<in>set [0, 2]. 0 \<le> i \<and> i < int (ncols (cells ([NP Object A] ! 0)))
              \<and> encodable (cells ([NP Object A] ! 0)) i"
    using e by (simp add: A_def)
  have v: "map (encode_row A [0, 2] True) (rows A)
             = [[Num 0, Num 1, Num 0], [Num 1, Num 2, Num 1], [Num 0, Num 3, Num 0]]"
    unfolding A_def by code_simp
  have "\<exists>r h'. one_hot_encode fs [NP Object A] 0 [0, 2] True = (Inr r, h')
            \<and> dtype (h' ! r) = dtype ([NP Object A] ! 0)
            \<and> rows (cells (h' ! r))
                = map (encode_row (cells ([NP Object A] ! 0)) [0, 2] True)
                    (rows (cells ([NP Object A] ! 0)))"
    using one_hot_encode_indicator_sums [OF h1 h2 h3 h4 h5, of fs True] by blast
  then have "\<exists>r h'. one_hot_encode fs [NP Object A] 0 [0, 2] True = (Inr r, h')
            \<and> dtype (h' ! r) = Object
            \<and> rows (cells (h' ! r))
                = [[Num 0, Num 1, Num 0], [Num 1, Num 2, Num 1], [Num 0, Num 3, Num 0]]"
    by (simp add: v)
  then show ?thesis
    using h2 e unfolding A_def fs_def by simp
qed

text \<open>
  Claim C8 as stated fails on a string array: \<^verbatim>\<open>np.hstack\<close> converts the indicator
  values to strings, so the inserted columns hold the strings \<^verbatim>\<open>'0.0'\<close> and
  \<^verbatim>\<open>'1.0'\<close>, not numbers with a sum.
\<close>

theorem one_hot_encode_strings_counterexample:
  "rect (Arr2 1 [[Str ''a''], [Str ''b'']])
   \<and> encodable (Arr2 1 [[Str ''a''], [Str ''b'']]) 0
   \<and> fst (one_hot_encode (\<lambda>r. if r = 0 then ''0.0'' else ''1.0'')
            [NP Unicode (Arr2 1 [[Str ''a''], [Str ''b'']])] 0 [0] False) = Inr 3
   \<and> snd (one_hot_encode (\<lambda>r. if r = 0 then ''0.0'' else ''1.0'')
            [NP Unicode (Arr2 1 [[Str ''a''], [Str ''b'']])] 0 [0] False) ! 3
       = NP Unicode (Arr2 2 [[Str ''1.0'', Str ''0.0''], [Str ''0.0'', Str ''1.0'']])
   \<and> rows (cells (snd (one_hot_encode (\<lambda>r. if r = 0 then ''0.0'' else ''1.0'')
            [NP Unicode (Arr2 1 [[Str ''a''], [Str ''b'']])] 0 [0] False) ! 3))
       \<noteq> map (encode_row (Arr2 1 [[Str ''a''], [Str ''b'']]) [0] False)
             (rows (Arr2 1 [[Str ''a''], [Str ''b'']]))"
  by code_simp

text \<open>
  Claim C9, as amended. On the array with the one column \<^verbatim>\<open>red, blue, red\<close>, with the
  index list \<^verbatim>\<open>[0]\<close> and without \<^verbatim>\<open>drop_first\<close>, \<^verbatim>\<open>one_hot_encode\<close> returns an
  array with two columns, the first for \<^verbatim>\<open>blue\<close>, the second for \<^verbatim>\<open>red\<close>. When the
  input is an array of Python objects the rows are the numbers \<open>[0, 1]\<close>, \<open>[1, 0]\<close>,
  \<open>[0, 1]\<close>. When it is the string array that \<^verbatim>\<open>np.array\<close> builds from the list, the
  rows hold the texts of these numbers: \<^verbatim>\<open>['0.0', '1.0']\<close>, \<^verbatim>\<open>['1.0', '0.0']\<close>,
  \<^verbatim>\<open>['0.0', '1.0']\<close>.
\<close>

theorem one_hot_encode_colours:
  assumes "float_str 0 = ''0.0''" and "float_str 1 = ''1.0''"
  shows "np_unique (column (Arr2 1 [[Str ''red''], [Str ''blue''], [Str ''red'']]) 0)
           = Inr [Str ''blue'', Str ''red'']
     \<and> fst (one_hot_encode float_str
              [NP Object (Arr2 1 [[Str ''red''], [Str ''blue''], [Str ''red'']])] 0 [0] False) = Inr 3
     \<and> snd (one_hot_encode float_str
              [NP Object (Arr2 1 [[Str ''red''], [Str ''blue''], [Str ''red'']])] 0 [0] False) ! 3
         = NP Object (Arr2 2 [[Num 0, Num 1], [Num 1, Num 0], [Num 0, Num 1]])
     \<and> fst (one_hot_encode float_str
              [NP Unicode (Arr2 1 [[Str ''red''], [Str ''blue''], [Str ''red'']])] 0 [0] False) = Inr 3
     \<and> snd (one_hot_encode float_str
              [NP Unicode (Arr2 1 [[Str ''red''], [Str ''blue''], [Str ''red'']])] 0 [0] False) ! 3
         = NP Unicode (Arr2 2 [[Str ''0.0'', Str ''1.0''], [Str ''1.0'', Str ''0.0''],
                               [Str ''0.0'', Str ''1.0'']])"
proof -
  have u: "np_unique (column (Arr2 1 [[Str ''red''], [Str ''blue''], [Str ''red'']]) 0)
           = Inr [Str ''blue'', Str ''red'']"
    by code_simp
  have o1: "fst (one_hot_encode float_str
              [NP Object (Arr2 1 [[Str ''red''], [Str ''blue''], [Str ''red'']])] 0 [0] False) = Inr 3"
    by code_simp
  have o2: "snd (one_hot_encode float_str
              [NP Object (Arr2 1 [[Str ''red''], [Str ''blue''], [Str ''red'']])] 0 [0] False) ! 3
         = NP Object (Arr2 2 [[Num 0, Num 1], [Num 1, Num 0], [Num 0, Num 1]])"
    by code_simp
  have s1: "fst (one_hot_encode float_str
              [NP Unicode (Arr2 1 [[Str ''red''], [Str ''blue''], [Str ''red'']])] 0 [0] False) = Inr 3"
    by code_simp
  have "snd (one_hot_encode float_str
              [NP Unicode (Arr2 1 [[Str ''red''], [Str ''blue''], [Str ''red'']])] 0 [0] False) ! 3
         = NP Unicode (Arr2 2 [[Str (float_str 0), Str (float_str 1)],
                               [Str (float_str 1), Str (float_str 0)],
                               [Str (float_str 0), Str (float_str 1)]])"
    by code_simp
  then have s2: "snd (one_hot_encode float_str
              [NP Unicode (Arr2 1 [[Str ''red''], [Str ''blue''], [Str ''red'']])] 0 [0] False) ! 3
         = NP Unicode (Arr2 2 [[Str ''0.0'', Str ''1.0''], [Str ''1.0'', Str ''0.0''],
                               [Str ''0.0'', Str ''1.0'']])"
    by (simp only: assms)
  show ?thesis using u o1 o2 s1 s2 by (intro conjI)
qed

theorem one_hot_encode_colours_witness:
  "(\<lambda>r :: real. if r = 0 then ''0.0'' else ''1.0'') 0 = ''0.0''
   \<and> (\<lambda>r :: real. if r = 0 then ''0.0'' else ''1.0'') 1 = ''1.0''
   \<and> snd (one_hot_encode (\<lambda>r. if r = 0 then ''0.0'' else ''1.0'')
              [NP Object (Arr2 1 [[Str ''red''], [Str ''blue''], [Str ''red'']])] 0 [0] False) ! 3
         = NP Object (Arr2 2 [[Num 0, Num 1], [Num 1, Num 0], [Num 0, Num 1]])
   \<and> snd (one_hot_encode (\<lambda>r. if r = 0 then ''0.0'' else ''1.0'')
              [NP Unicode (Arr2 1 [[Str ''red''], [Str ''blue''], [Str ''red'']])] 0 [0] False) ! 3
         = NP Unicode (Arr2 2 [[Str ''0.0'', Str ''1.0''], [Str ''1.0'', Str ''0.0''],
                               [Str ''0.0'', Str ''1.0'']])"
proof -
  define fs :: "real \<Rightarrow> string" where "fs = (\<lambda>r. if r = 0 then ''0.0'' else ''1.0'')"
  have a: "fs 0 = ''0.0''" and b: "fs 1 = ''1.0''" by (simp_all add: fs_def)
  show ?thesis
    using a b one_hot_encode_colours [OF a b] unfolding fs_def by simp
qed

text \<open>
  Claim C9 as stated fails on the string array: the rows returned hold strings, not the
  numbers \<open>0\<close> and \<open>1\<close>.
\<close>

theorem one_hot_encode_colours_counterexample:
  "cells (snd (one_hot_encode (\<lambda>r. if r = 0 then ''0.0'' else ''1.0'')
              [NP Unicode (Arr2 1 [[Str ''red''], [Str ''blue''], [Str ''red'']])] 0 [0] False) ! 3)
     = Arr2 2 [[Str ''0.0'', Str ''1.0''], [Str ''1.0'', Str ''0.0''], [Str ''0.0'', Str ''1.0'']]
   \<and> cells (snd (one_hot_encode (\<lambda>r. if r = 0 then ''0.0'' else ''1.0'')
              [NP Unicode (Arr2 1 [[Str ''red''], [Str ''blue''], [Str ''red'']])] 0 [0] False) ! 3)
     \<noteq> Arr2 2 [[Num 0, Num 1], [Num 1, Num 0], [Num 0, Num 1]]"
  by code_simp

subsection \<open>\<^verbatim>\<open>one_hot_encode\<close>: the caller's array\<close>

text \<open>
  Claim C10, as amended. For every store, every array \<open>X\<close> in it, every list of indices
  and every flag, the call leaves \<open>X\<close> and every other array that existed before it
  unchanged, whether it returns or raises. When it returns, the array returned is a new
  one. It returns exactly when every index is in range for the columns of \<open>X\<close> and the
  values of each of these columns can be sorted; otherwise it raises.
\<close>

theorem one_hot_encode_frame:
  assumes "X < length h"
  shows "length h \<le> length (snd (one_hot_encode float_str h X categorical_indices drop_first))
     \<and> (\<forall>a<length h. snd (one_hot_encode float_str h X categorical_indices drop_first) ! a = h ! a)
     \<and> (\<forall>r. fst (one_hot_encode float_str h X categorical_indices drop_first) = Inr r \<longrightarrow>
            length h \<le> r
          \<and> r < length (snd (one_hot_encode float_str h X categorical_indices drop_first)))
     \<and> ((\<exists>r. fst (one_hot_encode float_str h X categorical_indices drop_first) = Inr r)
          = list_all (encodable (cells (h ! X))) categorical_indices)"
proof -
  define h1 where "h1 = h @ [h ! X]"
  obtain res h' where l:
    "encode_loop float_str h1 X drop_first (length h) (rev (sort categorical_indices)) = (res, h')"
    by (cases "encode_loop float_str h1 X drop_first (length h) (rev (sort categorical_indices))")
  have o: "one_hot_encode float_str h X categorical_indices drop_first = (res, h')"
    by (simp add: one_hot_encode_def alloc_def h1_def [symmetric] l)
  note f = encode_loop_frame [OF l]
  have 1: "length h \<le> length h'" using f by (simp add: h1_def)
  have 2: "\<forall>a<length h. h' ! a = h ! a"
    using f by (simp add: h1_def nth_append)
  have 3: "\<forall>r. res = Inr r \<longrightarrow> length h \<le> r \<and> r < length h'"
    using f by (auto simp: h1_def)
  have a: "X < length h1" "length h < length h1"
    "nrows (cells (h1 ! length h)) = nrows (cells (h1 ! X))"
    using assms by (simp_all add: h1_def nth_append)
  have "(\<exists>r. fst (encode_loop float_str h1 X drop_first (length h) (rev (sort categorical_indices))) = Inr r)
          = list_all (encodable (cells (h1 ! X))) (rev (sort categorical_indices))"
    by (rule encode_loop_result [OF a])
  then have 4: "(\<exists>r. res = Inr r) = list_all (encodable (cells (h ! X))) categorical_indices"
    using assms unfolding l by (simp add: h1_def nth_append list_all_iff)
  show ?thesis using 1 2 3 4 by (simp add: o)
qed

theorem one_hot_encode_frame_witness:
  "0 < length [NP Object (Arr2 2 [[Num 1, Str ''a''], [Num 2, Str ''b'']])]
   \<and> snd (one_hot_encode (\<lambda>r. if r = 0 then ''0.0'' else ''1.0'') [NP Object (Arr2 2 [[Num 1, Str ''a''], [Num 2, Str ''b'']])]
            0 [1] False) ! 0
       = NP Object (Arr2 2 [[Num 1, Str ''a''], [Num 2, Str ''b'']])
   \<and> fst (one_hot_encode (\<lambda>r. if r = 0 then ''0.0'' else ''1.0'') [NP Object (Arr2 2 [[Num 1, Str ''a''], [Num 2, Str ''b'']])]
            0 [1] False) = Inr 3
   \<and> list_all (encodable (Arr2 2 [[Num 1, Str ''a''], [Num 2, Str ''b'']])) [1]"
proof -
  define A where "A = NP Object (Arr2 2 [[Num 1, Str ''a''], [Num 2, Str ''b'']])"
  have h1: "0 < length [A]" by simp
  have r: "fst (one_hot_encode (\<lambda>r. if r = 0 then ''0.0'' else ''1.0'') [A] 0 [1] False) = Inr 3"
    unfolding A_def by code_simp
  note t = one_hot_encode_frame [OF h1, of "\<lambda>r. if r = 0 then ''0.0'' else ''1.0''" "[1]" False]
  have "snd (one_hot_encode (\<lambda>r. if r = 0 then ''0.0'' else ''1.0'') [A] 0 [1] False) ! 0 = [A] ! 0"
    using t by simp
  moreover have "list_all (encodable (cells ([A] ! 0))) [1]"
    using t r by simp
  ultimately show ?thesis
    using r unfolding A_def by simp
qed

text \<open>
  Claim C10 as stated fails on an index that is out of range: \<^verbatim>\<open>X[:, index]\<close> raises
  and no array is returned.
\<close>

theorem one_hot_encode_index_counterexample:
  "one_hot_encode (\<lambda>r. if r = 0 then ''0.0'' else ''1.0'') [NP Float64 (Arr2 1 [[Num 1]])] 0 [1] False
     = (Inl IndexError, [NP Float64 (Arr2 1 [[Num 1]]), NP Float64 (Arr2 1 [[Num 1]])])
   \<and> (\<nexists>r. fst (one_hot_encode (\<lambda>r. if r = 0 then ''0.0'' else ''1.0'') [NP Float64 (Arr2 1 [[Num 1]])] 0 [1] False) = Inr r)"
  by (simp add: one_hot_encode_def alloc_def encode_index_def py_index_def)

end
